theory Spec2Isabelle
  imports Complex_Main
begin

section \<open>Inclined-plane simulation: embedding of the program\<close>

text \<open>
  The program is a single Python module. Its numbers are Python floats; the embedding
  reads them as mathematical reals, so a literal such as \<open>0.25\<close> is the rational
  \<open>25/100\<close> and \<open>math.sin(math.radians(30))\<close> is \<open>sin (30 * pi / 180)\<close>.
  Rounding is therefore outside the model; every statement below is about the real-valued
  reading of the code. Mutation of \<open>self\<close> is explicit state passing, and every
  \<open>raise\<close> of the Python runtime that the modelled code can reach is a value of
  \<open>py_error\<close>.

  Of the rendering code, \<open>GraphPlot.draw\<close> is modelled. \<open>Button.draw\<close>,
  \<open>InclineScene.draw\<close> and \<open>SimulationController.draw\<close> read the state and
  change none of it, and are left out, as are colours and fonts of the widgets.
\<close>

subsection \<open>Constants\<close>

definition WINDOW_WIDTH :: int where "WINDOW_WIDTH = 1024"
definition WINDOW_HEIGHT :: int where "WINDOW_HEIGHT = 768"
definition LEFT_PANEL_WIDTH :: int where "LEFT_PANEL_WIDTH = 600"
definition RIGHT_PANEL_WIDTH :: int where "RIGHT_PANEL_WIDTH = WINDOW_WIDTH - LEFT_PANEL_WIDTH"
definition FPS :: real where "FPS = 60"
definition G :: real where "G = 98 / 10"
definition THETA :: real where "THETA = 30 * pi / 180"
definition SIN_THETA :: real where "SIN_THETA = sin THETA"
definition COS_THETA :: real where "COS_THETA = cos THETA"
definition A :: real where "A = G * SIN_THETA"
definition L_PHYSICAL_MAX :: real where "L_PHYSICAL_MAX = 25 / 10"
definition L_PIXEL_MAX :: real where "L_PIXEL_MAX = 400"

definition HEIGHTS :: "real list" where
  "HEIGHTS = [25 / 100, 50 / 100, 75 / 100, 100 / 100, 125 / 100]"
definition PLANE_LENGTHS :: "real list" where
  "PLANE_LENGTHS = [50 / 100, 100 / 100, 150 / 100, 200 / 100, 250 / 100]"
definition EXP_AVG_SPEEDS :: "real list" where
  "EXP_AVG_SPEEDS = [111 / 100, 1, 15 / 10, 2, 25 / 10]"
definition EXP_STD_DEVS :: "real list" where
  "EXP_STD_DEVS = [3 / 100, 4 / 100, 3 / 100, 3 / 100, 4 / 100]"

type_synonym color = "nat \<times> nat \<times> nat"

definition WHITE :: color where "WHITE = (255, 255, 255)"
definition RED :: color where "RED = (200, 0, 0)"
definition BLACK :: color where "BLACK = (0, 0, 0)"
definition GREEN :: color where "GREEN = (0, 200, 0)"
definition YELLOW :: color where "YELLOW = (255, 255, 0)"

subsection \<open>Python runtime: errors, list indexing, truncation\<close>

datatype py_error = ValueError | IndexError | ZeroDivisionError

text \<open>\<open>xs.index(x)\<close>: the first position holding \<open>x\<close>, \<open>ValueError\<close> when there is none.\<close>

fun index_from :: "nat \<Rightarrow> 'a list \<Rightarrow> 'a \<Rightarrow> py_error + nat" where
  "index_from k [] x = Inl ValueError"
| "index_from k (y # ys) x = (if y = x then Inr k else index_from (Suc k) ys x)"

definition index :: "'a list \<Rightarrow> 'a \<Rightarrow> py_error + nat" where
  "index xs x = index_from 0 xs x"

text \<open>\<open>xs[i]\<close> for a non-negative index: \<open>IndexError\<close> out of range.\<close>

definition getitem :: "'a list \<Rightarrow> nat \<Rightarrow> py_error + 'a" where
  "getitem xs i = (if i < length xs then Inr (xs ! i) else Inl IndexError)"

text \<open>\<open>a / b\<close> on floats raises \<open>ZeroDivisionError\<close> when \<open>b\<close> is zero.\<close>

definition truediv :: "real \<Rightarrow> real \<Rightarrow> py_error + real" where
  "truediv a b = (if b = 0 then Inl ZeroDivisionError else Inr (a / b))"

text \<open>\<open>int(x)\<close> truncates towards zero.\<close>

definition py_int :: "real \<Rightarrow> int" where
  "py_int x = (if 0 \<le> x then \<lfloor>x\<rfloor> else \<lceil>x\<rceil>)"

subsection \<open>pygame rectangles and buttons\<close>

record Rect =
  r_left :: int
  r_top :: int
  r_width :: int
  r_height :: int

definition mkRect :: "int \<Rightarrow> int \<Rightarrow> int \<Rightarrow> int \<Rightarrow> Rect" where
  "mkRect x y w h = \<lparr>r_left = x, r_top = y, r_width = w, r_height = h\<rparr>"

definition r_right :: "Rect \<Rightarrow> int" where "r_right r = r_left r + r_width r"
definition r_bottom :: "Rect \<Rightarrow> int" where "r_bottom r = r_top r + r_height r"

text \<open>\<open>Rect.collidepoint\<close>: a point on the right or bottom edge is outside.\<close>

definition collidepoint :: "Rect \<Rightarrow> int \<times> int \<Rightarrow> bool" where
  "collidepoint r p =
     (r_left r \<le> fst p \<and> fst p < r_right r \<and> r_top r \<le> snd p \<and> snd p < r_bottom r)"

datatype event = QUIT | KEYDOWN nat | MOUSEBUTTONDOWN | OTHER

definition K_ESCAPE :: nat where "K_ESCAPE = 27"

record Button =
  rect :: Rect
  btn_text :: string
  clicked :: bool

definition mkButton :: "int \<Rightarrow> int \<Rightarrow> int \<Rightarrow> int \<Rightarrow> string \<Rightarrow> Button" where
  "mkButton x y w h txt = \<lparr>rect = mkRect x y w h, btn_text = txt, clicked = False\<rparr>"

definition is_hovered :: "Button \<Rightarrow> int \<times> int \<Rightarrow> bool" where
  "is_hovered b mouse_pos = collidepoint (rect b) mouse_pos"

text \<open>\<open>Button.is_clicked\<close> returns the answer and the button, whose flag it may set.\<close>

definition is_clicked :: "Button \<Rightarrow> event \<Rightarrow> int \<times> int \<Rightarrow> bool \<times> Button" where
  "is_clicked b ev mouse_pos =
     (if ev = MOUSEBUTTONDOWN \<and> is_hovered b mouse_pos
      then (True, b\<lparr>clicked := True\<rparr>) else (False, b))"

subsection \<open>GraphPlot\<close>

record GraphPlot =
  rect :: Rect
  points :: "(real \<times> real) list"

definition mkGraphPlot :: "int \<Rightarrow> int \<Rightarrow> int \<Rightarrow> int \<Rightarrow> GraphPlot" where
  "mkGraphPlot x y w h = \<lparr>GraphPlot.rect = mkRect x y w h, points = []\<rparr>"

definition add_point :: "real \<Rightarrow> real \<Rightarrow> GraphPlot \<Rightarrow> GraphPlot" where
  "add_point s0 v0 g = g\<lparr>points := points g @ [(s0, v0)]\<rparr>"

definition clear :: "GraphPlot \<Rightarrow> GraphPlot" where
  "clear g = g\<lparr>points := []\<rparr>"

subsection \<open>InclineScene\<close>

text \<open>
  The scene's rectangle is used by the constructor only, to place \<open>incline_start\<close>;
  it is not kept as a field here.
\<close>

record InclineScene =
  incline_start :: "real \<times> real"
  block_size :: int
  block_pos :: "real \<times> real"
  t :: real
  s :: real
  L :: real

definition mkInclineScene :: "int \<Rightarrow> int \<Rightarrow> int \<Rightarrow> int \<Rightarrow> InclineScene" where
  "mkInclineScene x y w h =
     (let r = mkRect x y w h;
          start = (real_of_int (r_left r + 50), real_of_int (r_bottom r - 50))
      in \<lparr>incline_start = start, block_size = 30, block_pos = start,
          t = 0, s = 0, L = PLANE_LENGTHS ! 0\<rparr>)"

definition reset :: "InclineScene \<Rightarrow> InclineScene" where
  "reset sc = sc\<lparr>block_pos := incline_start sc, t := 0, s := 0\<rparr>"

definition set_height :: "real \<Rightarrow> InclineScene \<Rightarrow> py_error + InclineScene" where
  "set_height h sc =
     (case index HEIGHTS h of
        Inl e \<Rightarrow> Inl e
      | Inr idx \<Rightarrow>
          (case getitem PLANE_LENGTHS idx of
             Inl e \<Rightarrow> Inl e
           | Inr len \<Rightarrow> Inr (reset (sc\<lparr>L := len\<rparr>))))"

text \<open>
  \<open>InclineScene.update\<close> returns the pair \<open>(self.s, A * self.t)\<close> read after the
  mutation, together with the scene.
\<close>

definition InclineScene_update :: "real \<Rightarrow> InclineScene \<Rightarrow> (real \<times> real) \<times> InclineScene" where
  "InclineScene_update dt sc =
     (let sc1 =
        (if s sc < L sc then
           (let sc2 = sc\<lparr>t := t sc + dt\<rparr>;
                sc3 = sc2\<lparr>s := (5 / 10) * A * (t sc2)\<^sup>2\<rparr>;
                sc4 = (if s sc3 > L sc3 then sc3\<lparr>s := L sc3\<rparr> else sc3);
                pixel_s = (s sc4 / L_PHYSICAL_MAX) * L_PIXEL_MAX;
                delta_x = pixel_s * COS_THETA;
                delta_y = pixel_s * SIN_THETA
            in sc4\<lparr>block_pos := (fst (incline_start sc4) + delta_x,
                                  snd (incline_start sc4) - delta_y)\<rparr>)
         else sc)
      in ((s sc1, A * t sc1), sc1))"

subsection \<open>The numerical library\<close>

text \<open>
  \<open>scipy.stats.linregress\<close>, \<open>scipy.optimize.curve_fit\<close> and the float power
  \<open>**\<close> are not code of the program. They are parameters of the model:
  \<open>linregress xs ys\<close> gives \<open>(slope, intercept, r_value)\<close> (the two further results
  are discarded by every caller), \<open>curve_fit f xs ys\<close> gives the optimal parameters
  \<open>popt\<close> of the two-parameter model \<open>f\<close>, and \<open>float_pow h p\<close> is \<open>h ** p\<close>.
  The program only ever fits the fixed tables, on which the library is taken to return.
\<close>

record numlib =
  linregress :: "real list \<Rightarrow> real list \<Rightarrow> real \<times> real \<times> real"
  curve_fit :: "(real \<Rightarrow> real \<Rightarrow> real \<Rightarrow> real) \<Rightarrow> real list \<Rightarrow> real list \<Rightarrow> real \<times> real"
  float_pow :: "real \<Rightarrow> real \<Rightarrow> real"

definition power_law :: "numlib \<Rightarrow> real \<Rightarrow> real \<Rightarrow> real \<Rightarrow> real" where
  "power_law lib h A_fit p = A_fit * float_pow lib h p"

subsection \<open>SimulationController\<close>

record fit =
  linear :: "real \<times> real \<times> real"
  power :: "real \<times> real"

record SimulationController =
  selected_height :: real
  running :: bool
  paused :: bool
  scene :: InclineScene
  graph :: GraphPlot
  buttons :: "Button list"
  start_button :: Button
  reset_button :: Button
  fit_results :: "fit option"
  match_status :: string

text \<open>
  The labels \<open>f"h = {h} m"\<close> of the five height buttons, as Python formats the entries
  of \<open>HEIGHTS\<close>.
\<close>

definition height_labels :: "string list" where
  "height_labels = [''h = 0.25 m'', ''h = 0.5 m'', ''h = 0.75 m'', ''h = 1.0 m'', ''h = 1.25 m'']"

definition mkSimulationController :: SimulationController where
  "mkSimulationController =
     \<lparr>selected_height = HEIGHTS ! 0,
      running = False,
      paused = False,
      scene = mkInclineScene 0 100 LEFT_PANEL_WIDTH (WINDOW_HEIGHT - 100),
      graph = mkGraphPlot (LEFT_PANEL_WIDTH + 20) 400 (RIGHT_PANEL_WIDTH - 40) 200,
      buttons = map (\<lambda>(i, txt). mkButton (LEFT_PANEL_WIDTH + 20) (150 + int i * 40) 150 30 txt)
                    (enumerate 0 height_labels),
      start_button = mkButton (LEFT_PANEL_WIDTH + 20) 350 150 30 ''Start'',
      reset_button = mkButton (LEFT_PANEL_WIDTH + 20) 390 150 30 ''Reset'',
      fit_results = None,
      match_status = []\<rparr>"

text \<open>
  \<open>float(btn.text.split('=')[1].strip().split()[0])\<close> reads back the number a label
  was formatted from (Python's float formatting round-trips). The model covers the five
  labels the constructor creates, which are never changed; any other text is
  \<open>ValueError\<close> here.
\<close>

definition label_height :: "string \<Rightarrow> py_error + real" where
  "label_height txt =
     (case map_of (zip height_labels HEIGHTS) txt of
        None \<Rightarrow> Inl ValueError
      | Some h \<Rightarrow> Inr h)"

text \<open>The body of \<open>if btn.is_clicked(event, mouse_pos):\<close> for a height button.\<close>

definition select_height :: "Button \<Rightarrow> SimulationController \<Rightarrow> py_error + SimulationController" where
  "select_height btn c =
     (case label_height (btn_text btn) of
        Inl e \<Rightarrow> Inl e
      | Inr h \<Rightarrow>
          (case set_height h (scene c) of
             Inl e \<Rightarrow> Inl e
           | Inr sc \<Rightarrow>
               Inr (c\<lparr>selected_height := h,
                      scene := sc,
                      running := False,
                      paused := False,
                      start_button := (start_button c)\<lparr>btn_text := ''Start''\<rparr>,
                      graph := clear (graph c),
                      fit_results := None,
                      match_status := []\<rparr>)))"

text \<open>
  \<open>for btn in self.buttons:\<close> over the buttons not yet visited; the buttons come back
  with their \<open>clicked\<close> flags.
\<close>

fun for_buttons ::
  "Button list \<Rightarrow> event \<Rightarrow> int \<times> int \<Rightarrow> SimulationController
     \<Rightarrow> py_error + (Button list \<times> SimulationController)" where
  "for_buttons [] ev mouse_pos c = Inr ([], c)"
| "for_buttons (btn # rest) ev mouse_pos c =
     (let (hit, btn1) = is_clicked btn ev mouse_pos in
      case (if hit then select_height btn1 c else Inr c) of
        Inl e \<Rightarrow> Inl e
      | Inr c1 \<Rightarrow>
          (case for_buttons rest ev mouse_pos c1 of
             Inl e \<Rightarrow> Inl e
           | Inr (rest1, c2) \<Rightarrow> Inr (btn1 # rest1, c2)))"

definition press_start :: "SimulationController \<Rightarrow> SimulationController" where
  "press_start c =
     (if \<not> running c then
        c\<lparr>running := True, paused := False,
          start_button := (start_button c)\<lparr>btn_text := ''Pause''\<rparr>\<rparr>
      else
        (let c1 = c\<lparr>paused := \<not> paused c\<rparr>
         in c1\<lparr>start_button :=
                 (start_button c1)\<lparr>btn_text := (if paused c1 then ''Resume'' else ''Pause'')\<rparr>\<rparr>))"

definition press_reset :: "SimulationController \<Rightarrow> SimulationController" where
  "press_reset c =
     c\<lparr>scene := reset (scene c),
       running := False,
       paused := False,
       start_button := (start_button c)\<lparr>btn_text := ''Start''\<rparr>,
       graph := clear (graph c),
       fit_results := None,
       match_status := []\<rparr>"

text \<open>
  One pass of the body of \<open>for event in events:\<close>. The boolean is \<open>False\<close> when the
  body executed \<open>return False\<close>.
\<close>

definition handle_event ::
  "event \<Rightarrow> int \<times> int \<Rightarrow> SimulationController \<Rightarrow> py_error + (bool \<times> SimulationController)" where
  "handle_event ev mouse_pos c =
     (if ev = QUIT then Inr (False, c)
      else if (case ev of KEYDOWN k \<Rightarrow> k = K_ESCAPE | _ \<Rightarrow> False) then Inr (False, c)
      else
        (case for_buttons (buttons c) ev mouse_pos c of
           Inl e \<Rightarrow> Inl e
         | Inr (bs, c1) \<Rightarrow>
             (let c2 = c1\<lparr>buttons := bs\<rparr>;
                  (hit_start, sb) = is_clicked (start_button c2) ev mouse_pos;
                  c3 = c2\<lparr>start_button := sb\<rparr>;
                  c4 = (if hit_start then press_start c3 else c3);
                  (hit_reset, rb) = is_clicked (reset_button c4) ev mouse_pos;
                  c5 = c4\<lparr>reset_button := rb\<rparr>;
                  c6 = (if hit_reset then press_reset c5 else c5)
              in Inr (True, c6))))"

fun handle_events ::
  "event list \<Rightarrow> int \<times> int \<Rightarrow> SimulationController \<Rightarrow> py_error + (bool \<times> SimulationController)" where
  "handle_events [] mouse_pos c = Inr (True, c)"
| "handle_events (ev # evs) mouse_pos c =
     (case handle_event ev mouse_pos c of
        Inl e \<Rightarrow> Inl e
      | Inr (go, c1) \<Rightarrow> (if go then handle_events evs mouse_pos c1 else Inr (False, c1)))"

text \<open>
  \<open>measured_v = self.scene.L / actual_time if actual_time > 0 else 0\<close>: the division is
  evaluated in the first branch only.
\<close>

definition measured_speed :: "real \<Rightarrow> real \<Rightarrow> py_error + real" where
  "measured_speed len actual_time =
     (if actual_time > 0 then truediv len actual_time else Inr 0)"

definition verdict :: "real \<Rightarrow> real \<Rightarrow> real \<Rightarrow> string" where
  "verdict measured_v exp_v exp_sd =
     (if \<bar>measured_v - exp_v\<bar> \<le> exp_sd then ''Success'' else ''Deviation'')"

definition compute_fit :: "numlib \<Rightarrow> fit" where
  "compute_fit lib =
     (let h_array = HEIGHTS;
          v_exp = EXP_AVG_SPEEDS;
          (slope, intercept, r_value) = linregress lib h_array v_exp;
          (A_fit, p) = curve_fit lib (power_law lib) h_array v_exp
      in \<lparr>linear = (slope, intercept, r_value\<^sup>2), power = (A_fit, p)\<rparr>)"

text \<open>The body of \<open>if s >= self.scene.L:\<close> in \<open>SimulationController.update\<close>.\<close>

definition complete_run :: "numlib \<Rightarrow> SimulationController \<Rightarrow> py_error + SimulationController" where
  "complete_run lib c =
     (let c1 = c\<lparr>running := False,
                 start_button := (start_button c)\<lparr>btn_text := ''Start''\<rparr>\<rparr>
      in case index HEIGHTS (selected_height c1) of
           Inl e \<Rightarrow> Inl e
         | Inr idx \<Rightarrow>
             (let actual_time = t (scene c1) in
              case measured_speed (L (scene c1)) actual_time of
                Inl e \<Rightarrow> Inl e
              | Inr measured_v \<Rightarrow>
                  (case getitem EXP_AVG_SPEEDS idx of
                     Inl e \<Rightarrow> Inl e
                   | Inr exp_v \<Rightarrow>
                       (case getitem EXP_STD_DEVS idx of
                          Inl e \<Rightarrow> Inl e
                        | Inr exp_sd \<Rightarrow>
                            Inr (c1\<lparr>match_status := verdict measured_v exp_v exp_sd,
                                    fit_results := Some (compute_fit lib)\<rparr>)))))"

definition update :: "numlib \<Rightarrow> real \<Rightarrow> SimulationController \<Rightarrow> py_error + SimulationController" where
  "update lib dt c =
     (if running c \<and> \<not> paused c then
        (let ((s1, v1), sc) = InclineScene_update dt (scene c);
             c1 = c\<lparr>scene := sc\<rparr>;
             c2 = c1\<lparr>graph := add_point s1 v1 (graph c1)\<rparr>
         in if s1 \<ge> L (scene c2) then complete_run lib c2 else Inr c2)
      else Inr c)"

subsection \<open>GraphPlot.draw\<close>

text \<open>
  Drawing is modelled by the list of primitives sent to the surface, in order.
  \<open>Blit txt pos\<close> stands for blitting the rendered text at \<open>pos\<close>.
\<close>

datatype draw_cmd =
  DrawRect color Rect int
| DrawLine color "real \<times> real" "real \<times> real" int
| DrawCircle color "int \<times> int" int
| Blit string "real \<times> real"

text \<open>
  \<open>numpy.linspace(start, stop, num)\<close> with its default \<open>endpoint=True\<close>: the samples
  \<open>start + i * step\<close> with \<open>step = (stop - start) / (num - 1)\<close>, the last one overwritten
  by \<open>stop\<close>.
\<close>

definition linspace :: "real \<Rightarrow> real \<Rightarrow> nat \<Rightarrow> real list" where
  "linspace start stop num =
     (if num = 0 then []
      else if num = 1 then [start]
      else map (\<lambda>i. start + real i * ((stop - start) / real (num - 1))) [0..<num - 1] @ [stop])"

text \<open>
  The two coordinate expressions the method repeats for every plotted point:
  \<open>self.rect.left + 20 + (x / max_s) * (self.rect.width - 40)\<close> and
  \<open>self.rect.bottom - 20 - (v / max_v) * (self.rect.height - 40)\<close>.
\<close>

definition plot_x :: "Rect \<Rightarrow> real \<Rightarrow> real \<Rightarrow> real" where
  "plot_x r max_s x = real_of_int (r_left r + 20) + (x / max_s) * real_of_int (r_width r - 40)"

definition plot_y :: "Rect \<Rightarrow> real \<Rightarrow> real \<Rightarrow> real" where
  "plot_y r max_v v = real_of_int (r_bottom r - 20) - (v / max_v) * real_of_int (r_height r - 40)"

text \<open>The loop \<open>for s, v in self.points:\<close> with its \<open>continue\<close>.\<close>

fun scatter :: "Rect \<Rightarrow> real \<Rightarrow> real \<Rightarrow> (real \<times> real) list \<Rightarrow> draw_cmd list" where
  "scatter r max_s max_v [] = []"
| "scatter r max_s max_v (pt # pts) =
     (if fst pt > max_s then scatter r max_s max_v pts
      else DrawCircle RED (py_int (plot_x r max_s (fst pt)), py_int (plot_y r max_v (snd pt))) 2
             # scatter r max_s max_v pts)"

text \<open>The loops \<open>for i in range(len(x_vals) - 1):\<close> that draw a curve as segments.\<close>

definition polyline :: "color \<Rightarrow> Rect \<Rightarrow> real \<Rightarrow> real \<Rightarrow> real list \<Rightarrow> real list \<Rightarrow> draw_cmd list" where
  "polyline col r max_s max_v x_vals vs =
     map (\<lambda>i. DrawLine col
                 (plot_x r max_s (x_vals ! i), plot_y r max_v (vs ! i))
                 (plot_x r max_s (x_vals ! (i + 1)), plot_y r max_v (vs ! (i + 1))) 1)
         [0..<length x_vals - 1]"

text \<open>
  The first statements of \<open>GraphPlot.draw\<close>: background, border, the two axes and
  their labels.
\<close>

definition draw_frame :: "Rect \<Rightarrow> draw_cmd list" where
  "draw_frame r =
     (let x_axis_y = r_bottom r - 20;
          y_axis_x = r_left r + 20
      in [DrawRect WHITE r 0,
          DrawRect BLACK r 1,
          DrawLine BLACK (real_of_int (r_left r), real_of_int x_axis_y)
                         (real_of_int (r_right r), real_of_int x_axis_y) 2,
          DrawLine BLACK (real_of_int y_axis_x, real_of_int (r_top r))
                         (real_of_int y_axis_x, real_of_int (r_bottom r)) 2,
          Blit ''s (m)'' (real_of_int (r_right r - 30), real_of_int (x_axis_y + 5)),
          Blit ''v (m/s)'' (real_of_int (y_axis_x - 15), real_of_int (r_top r - 15))])"

definition draw :: "numlib \<Rightarrow> GraphPlot \<Rightarrow> real \<Rightarrow> py_error + draw_cmd list" where
  "draw lib g sel_height =
     (let r = GraphPlot.rect g;
          frame = draw_frame r;
          max_s = last PLANE_LENGTHS;
          max_v = 4;
          dots = scatter r max_s max_v (points g)
      in if sel_height \<in> set HEIGHTS then
           (case index HEIGHTS sel_height of
              Inl e \<Rightarrow> Inl e
            | Inr idx \<Rightarrow>
                (case getitem PLANE_LENGTHS idx of
                   Inl e \<Rightarrow> Inl e
                 | Inr len \<Rightarrow>
                     (let h_array = HEIGHTS;
                          v_exp = EXP_AVG_SPEEDS;
                          (slope, intercept, r_value) = linregress lib h_array v_exp;
                          x_vals = linspace 0 max_s 100;
                          v_linear = map (\<lambda>x. slope * (x / 2) + intercept) x_vals;
                          (A_fit, p) = curve_fit lib (power_law lib) h_array v_exp;
                          v_power = map (\<lambda>x. power_law lib (x / 2) A_fit p) x_vals
                      in case getitem v_exp idx of
                           Inl e \<Rightarrow> Inl e
                         | Inr v_highlight \<Rightarrow>
                             Inr (frame @ dots
                                  @ polyline GREEN r max_s max_v x_vals v_linear
                                  @ polyline YELLOW r max_s max_v x_vals v_power
                                  @ [DrawCircle BLACK
                                       (py_int (plot_x r max_s len), py_int (plot_y r max_v v_highlight))
                                       5]))))
         else Inr (frame @ dots))"

subsection \<open>The main loop\<close>

text \<open>
  One iteration of \<open>while running:\<close> in \<open>main\<close>, without the rendering, which changes
  no state: the events of the frame are handled, then the controller is advanced by
  \<open>1.0 / FPS\<close>, also in the iteration that ends the loop.
\<close>

definition frame_step ::
  "numlib \<Rightarrow> event list \<Rightarrow> int \<times> int \<Rightarrow> SimulationController
     \<Rightarrow> py_error + (bool \<times> SimulationController)" where
  "frame_step lib evs mouse_pos c =
     (case handle_events evs mouse_pos c of
        Inl e \<Rightarrow> Inl e
      | Inr (go, c1) \<Rightarrow>
          (case update lib (1 / FPS) c1 of
             Inl e \<Rightarrow> Inl e
           | Inr c2 \<Rightarrow> Inr (go, c2)))"

text \<open>
  The controller states the program can be in: the constructed one, and every state
  that event handling or a tick of \<open>1.0 / FPS\<close> produces from one of them. Handling
  and ticking are closed under separately, so the states between the two halves of an
  iteration are included.
\<close>

inductive reachable :: "numlib \<Rightarrow> SimulationController \<Rightarrow> bool" for lib where
  reach_init: "reachable lib mkSimulationController"
| reach_events: "reachable lib c \<Longrightarrow> handle_events evs mouse_pos c = Inr (go, c1) \<Longrightarrow> reachable lib c1"
| reach_update: "reachable lib c \<Longrightarrow> update lib (1 / FPS) c = Inr c1 \<Longrightarrow> reachable lib c1"

text \<open>\<open>n\<close> consecutive ticks of \<open>1.0 / FPS\<close> with no input in between.\<close>

fun ticks :: "numlib \<Rightarrow> nat \<Rightarrow> SimulationController \<Rightarrow> py_error + SimulationController" where
  "ticks lib 0 c = Inr c"
| "ticks lib (Suc n) c =
     (case update lib (1 / FPS) c of
        Inl e \<Rightarrow> Inl e
      | Inr c1 \<Rightarrow> ticks lib n c1)"

fun scene_ticks :: "nat \<Rightarrow> InclineScene \<Rightarrow> InclineScene" where
  "scene_ticks 0 sc = sc"
| "scene_ticks (Suc n) sc = scene_ticks n (snd (InclineScene_update (1 / FPS) sc))"

subsection \<open>A library instance for concrete runs\<close>

text \<open>
  Concrete runs of the model need some value for the library parameter. This instance
  returns fixed fit parameters; nothing proved in general depends on it.
\<close>

definition sample_lib :: numlib where
  "sample_lib =
     \<lparr>linregress = (\<lambda>xs ys. (2, 1 / 2, 1)),
      curve_fit = (\<lambda>f xs ys. (2, 1)),
      float_pow = (\<lambda>h p. h powr p)\<rparr>"

subsection \<open>The button layout\<close>

text \<open>
  No method changes a button's rectangle or a height button's label after construction.
  A controller state has the constructed layout when its buttons sit where the
  constructor put them and the height buttons carry their labels.
\<close>

definition constructed_layout :: "SimulationController \<Rightarrow> bool" where
  "constructed_layout c \<longleftrightarrow>
     map Button.rect (buttons c) = map Button.rect (buttons mkSimulationController) \<and>
     map btn_text (buttons c) = height_labels \<and>
     Button.rect (start_button c) = Button.rect (start_button mkSimulationController) \<and>
     Button.rect (reset_button c) = Button.rect (reset_button mkSimulationController)"

subsection \<open>The state invariant\<close>

text \<open>
  What every state of a run satisfies: the buttons are laid out as constructed, the
  selected height is a preset and the scene's plane length is the one of that preset,
  the elapsed time is not negative, and the displacement is the kinematic value
  \<open>0.5 * A * t\<^sup>2\<close> cut off at the plane length.
\<close>

definition state_inv :: "SimulationController \<Rightarrow> bool" where
  "state_inv c \<longleftrightarrow>
     constructed_layout c \<and>
     (\<exists>i<5. selected_height c = HEIGHTS ! i \<and> L (scene c) = PLANE_LENGTHS ! i) \<and>
     0 \<le> t (scene c) \<and>
     s (scene c) = min ((5 / 10) * A * (t (scene c))\<^sup>2) (L (scene c))"

subsection \<open>A started run\<close>

text \<open>
  The state a click on the start button at \<open>(620, 350)\<close> leaves the constructed
  controller in; concrete runs below begin here.
\<close>

definition started :: SimulationController where
  "started =
     press_start
       (mkSimulationController\<lparr>start_button := (start_button mkSimulationController)\<lparr>clicked := True\<rparr>\<rparr>)"

subsection \<open>A graph with a trace\<close>

text \<open>
  The graph of the constructed controller holding two samples, one of them beyond the
  largest plane length.
\<close>

definition sample_graph :: GraphPlot where
  "sample_graph = (graph mkSimulationController)\<lparr>points := [(1, 2), (3, 1)]\<rparr>"

section \<open>Properties\<close>

subsection \<open>The constants\<close>

lemma SIN_THETA_half: "SIN_THETA = 1 / 2"
  using sin_30 by (simp add: SIN_THETA_def THETA_def)

lemma A_value: "A = 49 / 10"
  by (simp add: A_def G_def SIN_THETA_half)

text \<open>
  Claim C3. The tables have five entries each, and at every index the plane length is
  the height divided by the sine of 30 degrees, which is twice the height.
\<close>

theorem plane_length_table:
  "length HEIGHTS = 5 \<and> length PLANE_LENGTHS = 5 \<and>
   (\<forall>i<5. PLANE_LENGTHS ! i = HEIGHTS ! i / SIN_THETA \<and> PLANE_LENGTHS ! i = 2 * HEIGHTS ! i)"
proof -
  have "PLANE_LENGTHS ! i = 2 * HEIGHTS ! i" if "i < 5" for i
  proof -
    from that have "i = 0 \<or> i = 1 \<or> i = 2 \<or> i = 3 \<or> i = 4" by arith
    then show ?thesis by (auto simp: PLANE_LENGTHS_def HEIGHTS_def)
  qed
  then show ?thesis
    by (simp add: SIN_THETA_half) (simp add: PLANE_LENGTHS_def HEIGHTS_def)
qed

theorem plane_length_table_witness:
  "(3::nat) < 5 \<and> PLANE_LENGTHS ! 3 = HEIGHTS ! 3 / SIN_THETA \<and> PLANE_LENGTHS ! 3 = 2 * HEIGHTS ! 3"
  using plane_length_table [THEN conjunct2, THEN conjunct2, rule_format, of 3] by simp

subsection \<open>Python list operations\<close>

lemma index_from_Inr:
  "index_from k xs x = Inr j \<Longrightarrow> k \<le> j \<and> j < k + length xs \<and> xs ! (j - k) = x"
proof (induction xs arbitrary: k)
  case Nil
  then show ?case by simp
next
  case (Cons y ys)
  show ?case
  proof (cases "y = x")
    case True
    with Cons.prems show ?thesis by simp
  next
    case False
    with Cons.prems have "index_from (Suc k) ys x = Inr j" by simp
    from Cons.IH [OF this] show ?thesis by (auto simp: nth_Cons')
  qed
qed

lemma index_Inr: "index xs x = Inr j \<Longrightarrow> j < length xs \<and> xs ! j = x"
  using index_from_Inr [of 0 xs x j] by (simp add: index_def)

lemma index_from_no_other_error: "index_from k xs x \<noteq> Inl ZeroDivisionError"
  by (induction xs arbitrary: k) auto

subsection \<open>The average speed of a completed run\<close>

lemma measured_speed_total:
  "measured_speed len tm = Inr (if tm > 0 then len / tm else 0)"
  by (simp add: measured_speed_def truediv_def)

lemma complete_run_no_zero_division: "complete_run lib c \<noteq> Inl ZeroDivisionError"
  by (auto simp: complete_run_def Let_def measured_speed_total getitem_def index_def
      index_from_no_other_error split: sum.splits if_splits)

text \<open>
  Claim C10. A tick never fails with a division by zero. The average speed is always
  defined: the division \<open>L / elapsed_time\<close> is evaluated only for a positive elapsed
  time, where it succeeds, and for any other elapsed time, zero included, the measured
  speed is \<open>0\<close>.
\<close>

theorem no_division_by_zero:
  "update lib dt c \<noteq> Inl ZeroDivisionError \<and>
   (\<exists>v. measured_speed len tm = Inr v) \<and>
   (tm > 0 \<longrightarrow> measured_speed len tm = truediv len tm \<and> truediv len tm = Inr (len / tm)) \<and>
   (\<not> tm > 0 \<longrightarrow> measured_speed len tm = Inr 0)"
  by (auto simp: update_def Let_def complete_run_no_zero_division measured_speed_def truediv_def
      split: prod.splits)

theorem no_division_by_zero_witness:
  "(0::real) < 1 / 4 \<and> measured_speed (1 / 2) (1 / 4) = truediv (1 / 2) (1 / 4) \<and>
   truediv (1 / 2) (1 / 4) = Inr 2 \<and>
   \<not> (0::real) > 0 \<and> measured_speed (1 / 2) 0 = Inr 0"
  using no_division_by_zero [of sample_lib 0 mkSimulationController "1 / 2" "1 / 4"]
    no_division_by_zero [of sample_lib 0 mkSimulationController "1 / 2" 0]
  by simp

subsection \<open>Event handling\<close>

lemma InclineScene_update_done:
  "L sc \<le> s sc \<Longrightarrow> InclineScene_update dt sc = ((s sc, A * t sc), sc)"
  by (simp add: InclineScene_update_def)

lemma for_buttons_miss:
  "ev \<noteq> MOUSEBUTTONDOWN \<or> (\<forall>b\<in>set bs. \<not> is_hovered b mp) \<Longrightarrow> for_buttons bs ev mp c = Inr (bs, c)"
  by (induction bs) (auto simp: is_clicked_def)

lemma for_buttons_hit:
  assumes "\<forall>b\<in>set pre. \<not> is_hovered b mp" and "is_hovered b mp"
    and "\<forall>b\<in>set post. \<not> is_hovered b mp"
  shows "for_buttons (pre @ b # post) MOUSEBUTTONDOWN mp c =
           (case select_height (b\<lparr>clicked := True\<rparr>) c of
              Inl e \<Rightarrow> Inl e
            | Inr c1 \<Rightarrow> Inr (pre @ b\<lparr>clicked := True\<rparr> # post, c1))"
  using assms(1)
proof (induction pre)
  case Nil
  from assms(3) have "for_buttons post MOUSEBUTTONDOWN mp c1 = Inr (post, c1)" for c1
    by (simp add: for_buttons_miss)
  with assms(2) show ?case
    by (simp add: is_clicked_def split: sum.splits)
next
  case (Cons a pre)
  then show ?case
    by (simp add: is_clicked_def split: sum.splits)
qed

lemma init_buttons:
  "buttons mkSimulationController =
     [mkButton 620 150 150 30 ''h = 0.25 m'', mkButton 620 190 150 30 ''h = 0.5 m'',
      mkButton 620 230 150 30 ''h = 0.75 m'', mkButton 620 270 150 30 ''h = 1.0 m'',
      mkButton 620 310 150 30 ''h = 1.25 m'']"
  by (simp add: mkSimulationController_def height_labels_def LEFT_PANEL_WIDTH_def enumerate_eq_zip upt_rec)

lemma label_height_nth: "i < 5 \<Longrightarrow> label_height (height_labels ! i) = Inr (HEIGHTS ! i)"
proof -
  assume "i < 5"
  then have "i = 0 \<or> i = 1 \<or> i = 2 \<or> i = 3 \<or> i = 4" by arith
  then show ?thesis
    by (auto simp: label_height_def height_labels_def HEIGHTS_def)
qed

lemma index_HEIGHTS_nth: "i < 5 \<Longrightarrow> index HEIGHTS (HEIGHTS ! i) = Inr i"
proof -
  assume "i < 5"
  then have "i = 0 \<or> i = 1 \<or> i = 2 \<or> i = 3 \<or> i = 4" by arith
  then show ?thesis
    by (auto simp: index_def HEIGHTS_def)
qed

lemma set_height_nth:
  "i < 5 \<Longrightarrow> set_height (HEIGHTS ! i) sc = Inr (reset (sc\<lparr>L := PLANE_LENGTHS ! i\<rparr>))"
  by (simp add: set_height_def index_HEIGHTS_nth getitem_def PLANE_LENGTHS_def)


lemma layout_buttons:
  assumes "constructed_layout c" and "j < 5"
  shows "length (buttons c) = 5"
    and "Button.rect (buttons c ! j) = mkRect 620 (150 + 40 * int j) 150 30"
    and "btn_text (buttons c ! j) = height_labels ! j"
proof -
  from assms(1) have m: "map Button.rect (buttons c) = map Button.rect (buttons mkSimulationController)"
    and tx: "map btn_text (buttons c) = height_labels"
    by (simp_all add: constructed_layout_def)
  from tx have "length (buttons c) = length height_labels"
    by (metis length_map)
  then show len: "length (buttons c) = 5" by (simp add: height_labels_def)
  from assms(2) have j: "j = 0 \<or> j = 1 \<or> j = 2 \<or> j = 3 \<or> j = 4" by arith
  have "Button.rect (buttons c ! j) = map Button.rect (buttons c) ! j"
    using len assms(2) by simp
  also have "\<dots> = mkRect 620 (150 + 40 * int j) 150 30"
    using j by (auto simp: m init_buttons mkButton_def)
  finally show "Button.rect (buttons c ! j) = mkRect 620 (150 + 40 * int j) 150 30" .
  have "btn_text (buttons c ! j) = map btn_text (buttons c) ! j"
    using len assms(2) by simp
  then show "btn_text (buttons c ! j) = height_labels ! j" by (simp add: tx)
qed

lemma layout_start_reset:
  assumes "constructed_layout c"
  shows "Button.rect (start_button c) = mkRect 620 350 150 30"
    and "Button.rect (reset_button c) = mkRect 620 390 150 30"
  using assms
  by (simp_all add: constructed_layout_def mkSimulationController_def mkButton_def LEFT_PANEL_WIDTH_def)

lemma hovered_iff:
  "Button.rect b = mkRect x y w h \<Longrightarrow>
     is_hovered b mp \<longleftrightarrow> x \<le> fst mp \<and> fst mp < x + w \<and> y \<le> snd mp \<and> snd mp < y + h"
  by (simp add: is_hovered_def collidepoint_def mkRect_def r_right_def r_bottom_def)

lemma height_button_exclusive:
  assumes "constructed_layout c" and "i < 5" and "is_hovered (buttons c ! i) mp"
  shows "\<forall>j<5. j \<noteq> i \<longrightarrow> \<not> is_hovered (buttons c ! j) mp"
    and "\<not> is_hovered (start_button c) mp"
    and "\<not> is_hovered (reset_button c) mp"
proof -
  from assms have hi: "150 + 40 * int i \<le> snd mp" "snd mp < 150 + 40 * int i + 30"
    using hovered_iff [OF layout_buttons(2) [OF assms(1,2)], of mp] by simp_all
  show "\<forall>j<5. j \<noteq> i \<longrightarrow> \<not> is_hovered (buttons c ! j) mp"
  proof (intro allI impI)
    fix j assume j: "j < 5" "j \<noteq> i"
    show "\<not> is_hovered (buttons c ! j) mp"
      using hovered_iff [OF layout_buttons(2) [OF assms(1) j(1)], of mp] hi j(2) by auto
  qed
  show "\<not> is_hovered (start_button c) mp"
    using hovered_iff [OF layout_start_reset(1) [OF assms(1)], of mp] hi assms(2) by auto
  show "\<not> is_hovered (reset_button c) mp"
    using hovered_iff [OF layout_start_reset(2) [OF assms(1)], of mp] hi assms(2) by auto
qed

lemma for_buttons_layout_hit:
  assumes "constructed_layout c0" and "i < 5" and "is_hovered (buttons c0 ! i) mp"
  shows "for_buttons (buttons c0) MOUSEBUTTONDOWN mp c =
           (case select_height ((buttons c0 ! i)\<lparr>clicked := True\<rparr>) c of
              Inl e \<Rightarrow> Inl e
            | Inr c1 \<Rightarrow> Inr ((buttons c0)[i := (buttons c0 ! i)\<lparr>clicked := True\<rparr>], c1))"
proof -
  let ?bs = "buttons c0"
  have len: "length ?bs = 5" by (rule layout_buttons(1) [OF assms(1,2)])
  have ex: "\<forall>j<5. j \<noteq> i \<longrightarrow> \<not> is_hovered (?bs ! j) mp"
    by (rule height_button_exclusive(1) [OF assms])
  have pre: "\<forall>b\<in>set (take i ?bs). \<not> is_hovered b mp"
  proof
    fix b assume "b \<in> set (take i ?bs)"
    then obtain k where "k < i" "b = ?bs ! k"
      using len assms(2) by (auto simp: in_set_conv_nth)
    with ex assms(2) show "\<not> is_hovered b mp" by auto
  qed
  have post: "\<forall>b\<in>set (drop (Suc i) ?bs). \<not> is_hovered b mp"
  proof
    fix b assume "b \<in> set (drop (Suc i) ?bs)"
    then obtain k where "k < 5 - Suc i" "b = ?bs ! (Suc i + k)"
      using len assms(2) by (auto simp: in_set_conv_nth)
    with ex assms(2) show "\<not> is_hovered b mp" by auto
  qed
  have split: "?bs = take i ?bs @ ?bs ! i # drop (Suc i) ?bs"
    using len assms(2) by (simp add: id_take_nth_drop)
  have upd: "?bs[i := b] = take i ?bs @ b # drop (Suc i) ?bs" for b
    using len assms(2) by (simp add: upd_conv_take_nth_drop)
  have "for_buttons ?bs MOUSEBUTTONDOWN mp c =
          for_buttons (take i ?bs @ ?bs ! i # drop (Suc i) ?bs) MOUSEBUTTONDOWN mp c"
    using split by simp
  also have "\<dots> = (case select_height ((?bs ! i)\<lparr>clicked := True\<rparr>) c of
              Inl e \<Rightarrow> Inl e
            | Inr c1 \<Rightarrow> Inr (take i ?bs @ (?bs ! i)\<lparr>clicked := True\<rparr> # drop (Suc i) ?bs, c1))"
    by (rule for_buttons_hit [OF pre assms(3) post])
  finally show ?thesis by (simp only: upd)
qed

lemma select_height_layout:
  assumes "constructed_layout c0" and "i < 5"
  shows "select_height ((buttons c0 ! i)\<lparr>clicked := True\<rparr>) c =
           Inr (c\<lparr>selected_height := HEIGHTS ! i,
                  scene := reset ((scene c)\<lparr>L := PLANE_LENGTHS ! i\<rparr>),
                  running := False,
                  paused := False,
                  start_button := (start_button c)\<lparr>btn_text := ''Start''\<rparr>,
                  graph := clear (graph c),
                  fit_results := None,
                  match_status := []\<rparr>)"
  using assms
  by (simp add: select_height_def layout_buttons(3) label_height_nth set_height_nth)


lemma handle_event_height_click:
  assumes "constructed_layout c" and "i < 5" and "is_hovered (buttons c ! i) mp"
  shows "handle_event MOUSEBUTTONDOWN mp c =
           Inr (True,
                c\<lparr>selected_height := HEIGHTS ! i,
                  scene := reset ((scene c)\<lparr>L := PLANE_LENGTHS ! i\<rparr>),
                  running := False,
                  paused := False,
                  start_button := (start_button c)\<lparr>btn_text := ''Start''\<rparr>,
                  graph := clear (graph c),
                  fit_results := None,
                  match_status := [],
                  buttons := (buttons c)[i := (buttons c ! i)\<lparr>clicked := True\<rparr>]\<rparr>)"
proof -
  have ns: "\<not> is_hovered (start_button c) mp" and nr: "\<not> is_hovered (reset_button c) mp"
    using height_button_exclusive(2,3) [OF assms] by simp_all
  have ns': "\<not> is_hovered ((start_button c)\<lparr>btn_text := ''Start''\<rparr>) mp"
    using ns by (simp add: is_hovered_def)
  show ?thesis
    by (simp add: handle_event_def for_buttons_layout_hit [OF assms]
        select_height_layout [OF assms(1,2)] is_clicked_def ns' nr)
qed

text \<open>
  Claim C5. A mouse click on the \<open>i\<close>-th height button, in any controller state with
  the constructed layout (idle, running or paused; every reachable state has that layout,
  see \<open>reachable_layout\<close> below), is handled without error and leaves
  the controller with the \<open>i\<close>-th preset selected, the plane length of that preset,
  elapsed time and displacement \<open>0\<close>, the block back at the start of the incline, an
  empty trace, no fit result, an empty verdict, neither running nor paused, and the
  start button labelled \<open>Start\<close>.
\<close>

theorem height_click_resets:
  assumes "constructed_layout c" and "i < 5" and "is_hovered (buttons c ! i) mouse_pos"
  shows "\<exists>c1. handle_events [MOUSEBUTTONDOWN] mouse_pos c = Inr (True, c1) \<and>
           selected_height c1 = HEIGHTS ! i \<and>
           L (scene c1) = PLANE_LENGTHS ! i \<and>
           t (scene c1) = 0 \<and> s (scene c1) = 0 \<and>
           block_pos (scene c1) = incline_start (scene c) \<and>
           points (graph c1) = [] \<and>
           fit_results c1 = None \<and> match_status c1 = [] \<and>
           \<not> running c1 \<and> \<not> paused c1 \<and>
           btn_text (start_button c1) = ''Start''"
  by (simp add: handle_event_height_click [OF assms] reset_def clear_def)

lemma start_button_exclusive:
  assumes "constructed_layout c" and "is_hovered (start_button c) mp"
  shows "\<forall>b\<in>set (buttons c). \<not> is_hovered b mp" and "\<not> is_hovered (reset_button c) mp"
proof -
  from assms have hs: "350 \<le> snd mp" "snd mp < 380"
    using hovered_iff [OF layout_start_reset(1) [OF assms(1)], of mp] by simp_all
  show "\<forall>b\<in>set (buttons c). \<not> is_hovered b mp"
  proof
    fix b assume "b \<in> set (buttons c)"
    then obtain j where j: "j < 5" "b = buttons c ! j"
      using layout_buttons(1) [OF assms(1), of 0] by (auto simp: in_set_conv_nth)
    show "\<not> is_hovered b mp"
      using hovered_iff [OF layout_buttons(2) [OF assms(1) j(1)], of mp] hs j by auto
  qed
  show "\<not> is_hovered (reset_button c) mp"
    using hovered_iff [OF layout_start_reset(2) [OF assms(1)], of mp] hs by auto
qed

lemma reset_button_exclusive:
  assumes "constructed_layout c" and "is_hovered (reset_button c) mp"
  shows "\<forall>b\<in>set (buttons c). \<not> is_hovered b mp" and "\<not> is_hovered (start_button c) mp"
proof -
  from assms have hs: "390 \<le> snd mp" "snd mp < 420"
    using hovered_iff [OF layout_start_reset(2) [OF assms(1)], of mp] by simp_all
  show "\<forall>b\<in>set (buttons c). \<not> is_hovered b mp"
  proof
    fix b assume "b \<in> set (buttons c)"
    then obtain j where j: "j < 5" "b = buttons c ! j"
      using layout_buttons(1) [OF assms(1), of 0] by (auto simp: in_set_conv_nth)
    show "\<not> is_hovered b mp"
      using hovered_iff [OF layout_buttons(2) [OF assms(1) j(1)], of mp] hs j by auto
  qed
  show "\<not> is_hovered (start_button c) mp"
    using hovered_iff [OF layout_start_reset(1) [OF assms(1)], of mp] hs by auto
qed

lemma handle_event_start_click:
  assumes "constructed_layout c" and "is_hovered (start_button c) mp"
  shows "handle_event MOUSEBUTTONDOWN mp c =
           Inr (True, press_start (c\<lparr>start_button := (start_button c)\<lparr>clicked := True\<rparr>\<rparr>))"
proof -
  have nb: "for_buttons (buttons c) MOUSEBUTTONDOWN mp c = Inr (buttons c, c)"
    using start_button_exclusive(1) [OF assms] by (simp add: for_buttons_miss)
  have nr: "\<not> is_hovered (reset_button c) mp"
    by (rule start_button_exclusive(2) [OF assms])
  show ?thesis
    using assms(2) nr
    by (simp add: handle_event_def nb is_clicked_def press_start_def Let_def)
qed

lemma handle_event_reset_click:
  assumes "constructed_layout c" and "is_hovered (reset_button c) mp"
  shows "handle_event MOUSEBUTTONDOWN mp c =
           Inr (True, press_reset (c\<lparr>reset_button := (reset_button c)\<lparr>clicked := True\<rparr>\<rparr>))"
proof -
  have nb: "for_buttons (buttons c) MOUSEBUTTONDOWN mp c = Inr (buttons c, c)"
    using reset_button_exclusive(1) [OF assms] by (simp add: for_buttons_miss)
  have ns: "\<not> is_hovered (start_button c) mp"
    by (rule reset_button_exclusive(2) [OF assms])
  show ?thesis
    using assms(2) ns
    by (simp add: handle_event_def nb is_clicked_def Let_def)
qed

text \<open>
  Claim C6. A mouse click on the reset button, in any controller state with the
  constructed layout, leaves the controller idle with the start button labelled
  \<open>Start\<close>, no fit result, an empty verdict, an empty trace, elapsed time and
  displacement \<open>0\<close>, and the selected height and plane length it had before.
\<close>

theorem reset_click_resets:
  assumes "constructed_layout c" and "is_hovered (reset_button c) mouse_pos"
  shows "\<exists>c1. handle_events [MOUSEBUTTONDOWN] mouse_pos c = Inr (True, c1) \<and>
           \<not> running c1 \<and> \<not> paused c1 \<and>
           btn_text (start_button c1) = ''Start'' \<and>
           fit_results c1 = None \<and> match_status c1 = [] \<and>
           points (graph c1) = [] \<and>
           t (scene c1) = 0 \<and> s (scene c1) = 0 \<and>
           block_pos (scene c1) = incline_start (scene c) \<and>
           selected_height c1 = selected_height c \<and>
           L (scene c1) = L (scene c)"
  by (simp add: handle_event_reset_click [OF assms] press_reset_def reset_def clear_def)

text \<open>
  Claim C9. For every tick size, a scene whose displacement has reached the plane length
  is returned unchanged by \<open>InclineScene.update\<close>, with the pair \<open>(s, A * t)\<close>.
  Hence a click on the start button after a completed run keeps the scene and the trace,
  and the tick that follows keeps the scene as well.
\<close>

theorem completed_scene_frozen:
  "(L sc \<le> s sc \<longrightarrow> InclineScene_update dt sc = ((s sc, A * t sc), sc)) \<and>
   (constructed_layout c \<and> is_hovered (start_button c) mouse_pos \<and> L (scene c) \<le> s (scene c) \<longrightarrow>
      (\<exists>c1. handle_events [MOUSEBUTTONDOWN] mouse_pos c = Inr (True, c1) \<and>
            scene c1 = scene c \<and> points (graph c1) = points (graph c) \<and>
            (\<forall>c2. update lib dt c1 = Inr c2 \<longrightarrow> scene c2 = scene c)))"
proof (intro conjI impI)
  assume "L sc \<le> s sc"
  then show "InclineScene_update dt sc = ((s sc, A * t sc), sc)"
    by (rule InclineScene_update_done)
next
  assume a: "constructed_layout c \<and> is_hovered (start_button c) mouse_pos \<and> L (scene c) \<le> s (scene c)"
  let ?c1 = "press_start (c\<lparr>start_button := (start_button c)\<lparr>clicked := True\<rparr>\<rparr>)"
  have h: "handle_events [MOUSEBUTTONDOWN] mouse_pos c = Inr (True, ?c1)"
    using a by (simp add: handle_event_start_click)
  have sc: "scene ?c1 = scene c" and gr: "points (graph ?c1) = points (graph c)"
    by (simp_all add: press_start_def Let_def)
  have "scene c2 = scene c" if "update lib dt ?c1 = Inr c2" for c2
    using that a sc
    by (auto simp: update_def Let_def InclineScene_update_done complete_run_def
        split: if_splits sum.splits prod.splits)
  with h sc gr show "\<exists>c1. handle_events [MOUSEBUTTONDOWN] mouse_pos c = Inr (True, c1) \<and>
            scene c1 = scene c \<and> points (graph c1) = points (graph c) \<and>
            (\<forall>c2. update lib dt c1 = Inr c2 \<longrightarrow> scene c2 = scene c)" by blast
qed

subsection \<open>Concrete clicks\<close>

lemma layout_init: "constructed_layout mkSimulationController"
  by (simp add: constructed_layout_def init_buttons mkButton_def height_labels_def)

lemma layout_flags: "constructed_layout (c\<lparr>running := r, paused := p\<rparr>) = constructed_layout c"
  by (simp add: constructed_layout_def)

theorem height_click_resets_witness:
  "constructed_layout (mkSimulationController\<lparr>running := True, paused := True\<rparr>) \<and> (2::nat) < 5 \<and>
   is_hovered (buttons (mkSimulationController\<lparr>running := True, paused := True\<rparr>) ! 2) (700, 240) \<and>
   (\<exists>c1. handle_events [MOUSEBUTTONDOWN] (700, 240)
            (mkSimulationController\<lparr>running := True, paused := True\<rparr>) = Inr (True, c1) \<and>
         selected_height c1 = 3 / 4 \<and> L (scene c1) = 3 / 2 \<and> t (scene c1) = 0 \<and> s (scene c1) = 0 \<and>
         \<not> running c1 \<and> \<not> paused c1)"
proof -
  let ?c = "mkSimulationController\<lparr>running := True, paused := True\<rparr>"
  have h1: "constructed_layout ?c" by (simp add: layout_flags layout_init)
  have h2: "(2::nat) < 5" by simp
  have h3: "is_hovered (buttons ?c ! 2) (700, 240)"
    by (simp add: init_buttons mkButton_def is_hovered_def collidepoint_def mkRect_def
        r_right_def r_bottom_def)
  from height_click_resets [OF h1 h2 h3] obtain c1 where
    c1: "handle_events [MOUSEBUTTONDOWN] (700, 240) ?c = Inr (True, c1)"
      "selected_height c1 = HEIGHTS ! 2" "L (scene c1) = PLANE_LENGTHS ! 2"
      "t (scene c1) = 0" "s (scene c1) = 0" "\<not> running c1" "\<not> paused c1"
    by blast
  from c1(2,3) have "selected_height c1 = 3 / 4" "L (scene c1) = 3 / 2"
    by (simp_all add: HEIGHTS_def PLANE_LENGTHS_def)
  with c1 h1 h2 h3 show ?thesis by blast
qed

theorem reset_click_resets_witness:
  "constructed_layout (mkSimulationController\<lparr>running := True, paused := True\<rparr>) \<and>
   is_hovered (reset_button (mkSimulationController\<lparr>running := True, paused := True\<rparr>)) (620, 390) \<and>
   (\<exists>c1. handle_events [MOUSEBUTTONDOWN] (620, 390)
            (mkSimulationController\<lparr>running := True, paused := True\<rparr>) = Inr (True, c1) \<and>
         \<not> running c1 \<and> \<not> paused c1 \<and> fit_results c1 = None \<and>
         selected_height c1 = 1 / 4 \<and> L (scene c1) = 1 / 2)"
proof -
  let ?c = "mkSimulationController\<lparr>running := True, paused := True\<rparr>"
  have h1: "constructed_layout ?c" by (simp add: layout_flags layout_init)
  have h2: "is_hovered (reset_button ?c) (620, 390)"
    by (simp add: mkSimulationController_def mkButton_def is_hovered_def collidepoint_def
        mkRect_def r_right_def r_bottom_def LEFT_PANEL_WIDTH_def)
  have v: "selected_height ?c = 1 / 4" "L (scene ?c) = 1 / 2"
    by (simp_all add: mkSimulationController_def mkInclineScene_def HEIGHTS_def PLANE_LENGTHS_def Let_def)
  from reset_click_resets [OF h1 h2] obtain c1 where
    c1: "handle_events [MOUSEBUTTONDOWN] (620, 390) ?c = Inr (True, c1)"
      "\<not> running c1" "\<not> paused c1" "fit_results c1 = None"
      "selected_height c1 = selected_height ?c" "L (scene c1) = L (scene ?c)"
    by blast
  from c1(5,6) v have "selected_height c1 = 1 / 4" "L (scene c1) = 1 / 2"
    by simp_all
  with c1 h1 h2 show ?thesis by blast
qed


subsection \<open>Ticks of an idle or paused controller\<close>

text \<open>
  Claim C7. A tick taken while the controller is not running, or is paused, returns
  the controller as it was; in particular the scene's elapsed time and displacement are
  unchanged.
\<close>

theorem idle_tick_unchanged:
  "\<not> running c \<or> paused c \<Longrightarrow>
     \<exists>c1. update lib dt c = Inr c1 \<and> c1 = c \<and>
          t (scene c1) = t (scene c) \<and> s (scene c1) = s (scene c)"
  by (auto simp: update_def)

theorem idle_tick_unchanged_witness:
  "update sample_lib (1 / 60) mkSimulationController = Inr mkSimulationController \<and>
   update sample_lib (1 / 60) (mkSimulationController\<lparr>running := True, paused := True\<rparr>) =
     Inr (mkSimulationController\<lparr>running := True, paused := True\<rparr>)"
proof -
  have h1: "\<not> running mkSimulationController \<or> paused mkSimulationController"
    by (simp add: mkSimulationController_def)
  have h2: "\<not> running (mkSimulationController\<lparr>running := True, paused := True\<rparr>) \<or>
      paused (mkSimulationController\<lparr>running := True, paused := True\<rparr>)"
    by simp
  from idle_tick_unchanged [OF h1, of sample_lib "1 / 60"]
    idle_tick_unchanged [OF h2, of sample_lib "1 / 60"] h1
  show ?thesis by simp
qed

theorem completed_scene_frozen_witness:
  "L ((scene mkSimulationController)\<lparr>t := 7 / 15, s := 1 / 2\<rparr>)
     \<le> s ((scene mkSimulationController)\<lparr>t := 7 / 15, s := 1 / 2\<rparr>) \<and>
   InclineScene_update (1 / 60) ((scene mkSimulationController)\<lparr>t := 7 / 15, s := 1 / 2\<rparr>) =
     ((1 / 2, A * (7 / 15)), (scene mkSimulationController)\<lparr>t := 7 / 15, s := 1 / 2\<rparr>) \<and>
   constructed_layout
     (mkSimulationController\<lparr>scene := (scene mkSimulationController)\<lparr>t := 7 / 15, s := 1 / 2\<rparr>\<rparr>) \<and>
   is_hovered
     (start_button
       (mkSimulationController\<lparr>scene := (scene mkSimulationController)\<lparr>t := 7 / 15, s := 1 / 2\<rparr>\<rparr>))
     (620, 350) \<and>
   (\<exists>c1. handle_events [MOUSEBUTTONDOWN] (620, 350)
           (mkSimulationController\<lparr>scene := (scene mkSimulationController)\<lparr>t := 7 / 15, s := 1 / 2\<rparr>\<rparr>)
           = Inr (True, c1) \<and>
         scene c1 = (scene mkSimulationController)\<lparr>t := 7 / 15, s := 1 / 2\<rparr>)"
proof -
  let ?sc = "(scene mkSimulationController)\<lparr>t := 7 / 15, s := 1 / 2\<rparr>"
  let ?c = "mkSimulationController\<lparr>scene := ?sc\<rparr>"
  have h1: "L ?sc \<le> s ?sc"
    by (simp add: mkSimulationController_def mkInclineScene_def PLANE_LENGTHS_def Let_def)
  have h2: "constructed_layout ?c"
    using layout_init by (simp add: constructed_layout_def)
  have h3: "is_hovered (start_button ?c) (620, 350)"
    by (simp add: mkSimulationController_def mkButton_def is_hovered_def collidepoint_def
        mkRect_def r_right_def r_bottom_def LEFT_PANEL_WIDTH_def)
  have h4: "L (scene ?c) \<le> s (scene ?c)" using h1 by simp
  note fz = completed_scene_frozen [of ?sc "1 / 60" ?c "(620, 350)" sample_lib]
  from fz h1 have u: "InclineScene_update (1 / 60) ?sc = ((s ?sc, A * t ?sc), ?sc)"
    by blast
  from fz h2 h3 h4 obtain c1 where
    c1: "handle_events [MOUSEBUTTONDOWN] (620, 350) ?c = Inr (True, c1)" "scene c1 = scene ?c"
    by blast
  from u have u': "InclineScene_update (1 / 60) ?sc = ((1 / 2, A * (7 / 15)), ?sc)" by simp
  from c1 have "\<exists>c1. handle_events [MOUSEBUTTONDOWN] (620, 350) ?c = Inr (True, c1) \<and> scene c1 = ?sc"
    by auto
  with h1 u' h2 h3 show ?thesis by blast
qed

subsection \<open>The state invariant\<close>

lemma PLANE_LENGTHS_pos: "i < 5 \<Longrightarrow> 0 < PLANE_LENGTHS ! i"
proof -
  assume "i < 5"
  then have "i = 0 \<or> i = 1 \<or> i = 2 \<or> i = 3 \<or> i = 4" by arith
  then show ?thesis by (auto simp: PLANE_LENGTHS_def)
qed

lemma state_inv_init: "state_inv mkSimulationController"
proof -
  have sel: "\<exists>i<5. selected_height mkSimulationController = HEIGHTS ! i \<and>
          L (scene mkSimulationController) = PLANE_LENGTHS ! i"
    by (rule exI [of _ 0]) (simp add: mkSimulationController_def mkInclineScene_def Let_def)
  have t0: "t (scene mkSimulationController) = 0" and s0: "s (scene mkSimulationController) = 0"
    and l0: "0 < L (scene mkSimulationController)"
    by (simp_all add: mkSimulationController_def mkInclineScene_def Let_def PLANE_LENGTHS_def)
  have "s (scene mkSimulationController) =
          min ((5 / 10) * A * (t (scene mkSimulationController))\<^sup>2) (L (scene mkSimulationController))"
    using l0 by (simp add: t0 s0)
  with sel layout_init t0 show ?thesis
    unfolding state_inv_def by simp
qed

lemma set_height_Inr:
  assumes "set_height h sc = Inr sc1"
  shows "\<exists>i<5. h = HEIGHTS ! i \<and> sc1 = reset (sc\<lparr>L := PLANE_LENGTHS ! i\<rparr>)"
proof -
  from assms obtain idx where idx: "index HEIGHTS h = Inr idx"
    by (auto simp: set_height_def split: sum.splits)
  from index_Inr [OF idx] have "idx < 5" "HEIGHTS ! idx = h"
    by (simp_all add: HEIGHTS_def)
  moreover from assms idx \<open>idx < 5\<close> have "sc1 = reset (sc\<lparr>L := PLANE_LENGTHS ! idx\<rparr>)"
    by (simp add: set_height_def getitem_def PLANE_LENGTHS_def)
  ultimately show ?thesis by blast
qed

lemma select_height_inv:
  assumes "state_inv c" and "select_height b c = Inr c1"
  shows "state_inv c1" and "buttons c1 = buttons c" and "reset_button c1 = reset_button c"
proof -
  from assms(2) obtain h sc1 where h: "label_height (btn_text b) = Inr h"
    and sc1: "set_height h (scene c) = Inr sc1"
    and c1: "c1 = c\<lparr>selected_height := h, scene := sc1, running := False, paused := False,
                  start_button := (start_button c)\<lparr>btn_text := ''Start''\<rparr>,
                  graph := clear (graph c), fit_results := None, match_status := []\<rparr>"
    by (auto simp: select_height_def split: sum.splits)
  from set_height_Inr [OF sc1] obtain i where i: "i < 5" "h = HEIGHTS ! i"
    "sc1 = reset ((scene c)\<lparr>L := PLANE_LENGTHS ! i\<rparr>)" by blast
  from assms(1) have lay: "constructed_layout c" by (simp add: state_inv_def)
  have "constructed_layout c1"
    using lay by (simp add: c1 constructed_layout_def)
  moreover have "\<exists>j<5. selected_height c1 = HEIGHTS ! j \<and> L (scene c1) = PLANE_LENGTHS ! j"
    using i by (intro exI [of _ i]) (simp add: c1 reset_def)
  moreover have "t (scene c1) = 0" "s (scene c1) = 0" "L (scene c1) = PLANE_LENGTHS ! i"
    using i by (simp_all add: c1 reset_def)
  ultimately show "state_inv c1"
    using PLANE_LENGTHS_pos [OF i(1)] by (simp add: state_inv_def)
  show "buttons c1 = buttons c" "reset_button c1 = reset_button c"
    by (simp_all add: c1)
qed

lemma for_buttons_inv:
  assumes "for_buttons bs ev mp c = Inr (bs1, c1)" and "state_inv c"
  shows "state_inv c1 \<and> buttons c1 = buttons c \<and> reset_button c1 = reset_button c \<and>
         map Button.rect bs1 = map Button.rect bs \<and> map btn_text bs1 = map btn_text bs"
  using assms
proof (induction bs arbitrary: c bs1 c1)
  case Nil
  then show ?case by simp
next
  case (Cons b bs)
  obtain hit b1 where hb: "is_clicked b ev mp = (hit, b1)" by (cases "is_clicked b ev mp")
  then have b1: "Button.rect b1 = Button.rect b" "btn_text b1 = btn_text b"
    by (auto simp: is_clicked_def split: if_splits)
  from Cons.prems(1) hb obtain c2 rest1 where
    c2: "(if hit then select_height b1 c else Inr c) = Inr c2"
    and rest: "for_buttons bs ev mp c2 = Inr (rest1, c1)" and bs1: "bs1 = b1 # rest1"
    by (auto split: sum.splits)
  have inv2: "state_inv c2 \<and> buttons c2 = buttons c \<and> reset_button c2 = reset_button c"
  proof (cases hit)
    case True
    with c2 have "select_height b1 c = Inr c2" by simp
    from select_height_inv [OF Cons.prems(2) this] show ?thesis by simp
  next
    case False
    with c2 Cons.prems(2) show ?thesis by simp
  qed
  from Cons.IH [OF rest] inv2 b1 bs1 show ?case by simp
qed

lemma press_start_inv: "state_inv c \<Longrightarrow> state_inv (press_start c)"
  by (simp add: state_inv_def press_start_def Let_def constructed_layout_def)

lemma press_reset_inv: "state_inv c \<Longrightarrow> state_inv (press_reset c)"
proof -
  assume a: "state_inv c"
  then obtain i where i: "i < 5" "L (scene c) = PLANE_LENGTHS ! i"
    by (auto simp: state_inv_def)
  from a PLANE_LENGTHS_pos [OF i(1)] i(2) show ?thesis
    by (simp add: state_inv_def press_reset_def reset_def constructed_layout_def)
qed

lemma is_clicked_same: "is_clicked b ev mp = (hit, b1) \<Longrightarrow> Button.rect b1 = Button.rect b \<and> btn_text b1 = btn_text b"
  by (auto simp: is_clicked_def split: if_splits)

lemma reset_button_press_start: "reset_button (press_start c) = reset_button c"
  by (simp add: press_start_def Let_def)

lemma handle_event_inv:
  assumes "handle_event ev mp c = Inr (go, c1)" and "state_inv c"
  shows "state_inv c1"
proof (cases "ev = QUIT \<or> (case ev of KEYDOWN k \<Rightarrow> k = K_ESCAPE | _ \<Rightarrow> False)")
  case True
  with assms show ?thesis by (auto simp: handle_event_def split: if_splits)
next
  case False
  with assms(1) obtain bs c2 where fb: "for_buttons (buttons c) ev mp c = Inr (bs, c2)"
    by (auto simp: handle_event_def split: sum.splits if_splits)
  from for_buttons_inv [OF fb assms(2)] have inv2: "state_inv c2" "buttons c2 = buttons c"
    "map Button.rect bs = map Button.rect (buttons c)" "map btn_text bs = map btn_text (buttons c)"
    by simp_all
  define c3 where "c3 = c2\<lparr>buttons := bs\<rparr>"
  have inv3: "state_inv c3"
    using inv2 by (simp add: c3_def state_inv_def constructed_layout_def)
  obtain hs sb where sb: "is_clicked (start_button c3) ev mp = (hs, sb)"
    by (cases "is_clicked (start_button c3) ev mp")
  define c4 where "c4 = c3\<lparr>start_button := sb\<rparr>"
  have inv4: "state_inv c4"
    using inv3 is_clicked_same [OF sb] by (simp add: c4_def state_inv_def constructed_layout_def)
  define c5 where "c5 = (if hs then press_start c4 else c4)"
  have inv5: "state_inv c5"
    using inv4 by (simp add: c5_def press_start_inv)
  obtain hr rb where rb: "is_clicked (reset_button c5) ev mp = (hr, rb)"
    by (cases "is_clicked (reset_button c5) ev mp")
  define c6 where "c6 = c5\<lparr>reset_button := rb\<rparr>"
  have inv6: "state_inv c6"
    using inv5 is_clicked_same [OF rb] by (simp add: c6_def state_inv_def constructed_layout_def)
  have "reset_button c5 = reset_button c2" "start_button c3 = start_button c2"
    by (simp_all add: c5_def c4_def c3_def reset_button_press_start)
  with sb rb have sb': "is_clicked (start_button c2) ev mp = (hs, sb)"
    and rb': "is_clicked (reset_button c2) ev mp = (hr, rb)" by simp_all
  have "handle_event ev mp c = Inr (True, if hr then press_reset c6 else c6)"
    using False fb sb' rb'
    by (simp add: handle_event_def Let_def c3_def c4_def c5_def c6_def reset_button_press_start)
  with assms(1) have "c1 = (if hr then press_reset c6 else c6)" by simp
  with inv6 show ?thesis by (simp add: press_reset_inv)
qed

lemma handle_events_inv:
  "handle_events evs mp c = Inr (go, c1) \<Longrightarrow> state_inv c \<Longrightarrow> state_inv c1"
proof (induction evs arbitrary: c)
  case Nil
  then show ?case by simp
next
  case (Cons ev evs)
  from Cons.prems(1) obtain g c2 where h: "handle_event ev mp c = Inr (g, c2)"
    by (auto split: sum.splits)
  from handle_event_inv [OF h Cons.prems(2)] have inv2: "state_inv c2" .
  show ?case
  proof (cases g)
    case True
    with Cons.prems(1) h have "handle_events evs mp c2 = Inr (go, c1)" by simp
    from Cons.IH [OF this inv2] show ?thesis .
  next
    case False
    with Cons.prems(1) h inv2 show ?thesis by simp
  qed
qed

subsection \<open>One tick of the scene\<close>

lemma scene_update_result:
  "InclineScene_update dt sc =
     ((s (snd (InclineScene_update dt sc)), A * t (snd (InclineScene_update dt sc))),
      snd (InclineScene_update dt sc))"
  by (simp add: InclineScene_update_def Let_def)

lemma scene_update_fields:
  "L (snd (InclineScene_update dt sc)) = L sc"
  "incline_start (snd (InclineScene_update dt sc)) = incline_start sc"
  "t (snd (InclineScene_update dt sc)) = (if s sc < L sc then t sc + dt else t sc)"
  "s (snd (InclineScene_update dt sc)) =
     (if s sc < L sc then min ((5 / 10) * A * (t sc + dt)\<^sup>2) (L sc) else s sc)"
  by (auto simp: InclineScene_update_def Let_def min_def)

lemma kinematic_mono:
  assumes "0 \<le> x" and "x \<le> y"
  shows "(5 / 10) * A * x\<^sup>2 \<le> (5 / 10) * A * y\<^sup>2"
proof -
  have "x\<^sup>2 \<le> y\<^sup>2" by (rule power_mono [OF assms(2) assms(1)])
  then show ?thesis by (simp add: A_value)
qed

lemma scene_update_keeps:
  assumes "0 \<le> t sc" and "0 \<le> dt" and "s sc = min ((5 / 10) * A * (t sc)\<^sup>2) (L sc)"
  shows "0 \<le> t (snd (InclineScene_update dt sc))"
    and "s (snd (InclineScene_update dt sc)) =
           min ((5 / 10) * A * (t (snd (InclineScene_update dt sc)))\<^sup>2) (L sc)"
    and "s sc \<le> s (snd (InclineScene_update dt sc))"
proof -
  show "0 \<le> t (snd (InclineScene_update dt sc))"
    using assms(1,2) by (simp add: scene_update_fields)
  show "s (snd (InclineScene_update dt sc)) =
           min ((5 / 10) * A * (t (snd (InclineScene_update dt sc)))\<^sup>2) (L sc)"
    using assms(3) by (simp add: scene_update_fields)
  have "(5 / 10) * A * (t sc)\<^sup>2 \<le> (5 / 10) * A * (t sc + dt)\<^sup>2"
    using assms(1,2) by (intro kinematic_mono) simp_all
  then show "s sc \<le> s (snd (InclineScene_update dt sc))"
    using assms(3) by (simp add: scene_update_fields min_def)
qed

subsection \<open>One tick of the controller\<close>

lemma update_running:
  assumes "running c" and "\<not> paused c" and "i < 5" and "selected_height c = HEIGHTS ! i"
  shows "update lib dt c =
     Inr (let sc = snd (InclineScene_update dt (scene c));
              c2 = c\<lparr>scene := sc, graph := add_point (s sc) (A * t sc) (graph c)\<rparr>
          in if L sc \<le> s sc then
               c2\<lparr>running := False,
                  start_button := (start_button c)\<lparr>btn_text := ''Start''\<rparr>,
                  match_status :=
                    verdict (if 0 < t sc then L sc / t sc else 0)
                      (EXP_AVG_SPEEDS ! i) (EXP_STD_DEVS ! i),
                  fit_results := Some (compute_fit lib)\<rparr>
             else c2)"
proof -
  obtain sc where sc: "sc = snd (InclineScene_update dt (scene c))" by simp
  have u: "InclineScene_update dt (scene c) = ((s sc, A * t sc), sc)"
    unfolding sc by (rule scene_update_result)
  have ge: "getitem EXP_AVG_SPEEDS i = Inr (EXP_AVG_SPEEDS ! i)"
    "getitem EXP_STD_DEVS i = Inr (EXP_STD_DEVS ! i)"
    using assms(3) by (simp_all add: getitem_def EXP_AVG_SPEEDS_def EXP_STD_DEVS_def)
  show ?thesis
    using assms(1,2,4)
    by (simp add: update_def u sc [symmetric] Let_def complete_run_def
        index_HEIGHTS_nth [OF assms(3)] measured_speed_total ge)
qed

lemma update_inv:
  assumes "state_inv c" and "0 \<le> dt"
  shows "\<exists>c1. update lib dt c = Inr c1 \<and> state_inv c1 \<and>
           scene c1 = (if running c \<and> \<not> paused c then snd (InclineScene_update dt (scene c)) else scene c) \<and>
           selected_height c1 = selected_height c \<and>
           paused c1 = paused c \<and>
           (running c1 \<longleftrightarrow> running c \<and> (paused c \<or> s (scene c1) < L (scene c1)))"
proof (cases "running c \<and> \<not> paused c")
  case False
  with assms(1) show ?thesis by (auto simp: update_def)
next
  case True
  from assms(1) obtain i where i: "i < 5" "selected_height c = HEIGHTS ! i"
    "L (scene c) = PLANE_LENGTHS ! i"
    and lay: "constructed_layout c" and t0: "0 \<le> t (scene c)"
    and s0: "s (scene c) = min ((5 / 10) * A * (t (scene c))\<^sup>2) (L (scene c))"
    by (auto simp: state_inv_def)
  let ?sc = "snd (InclineScene_update dt (scene c))"
  note k = scene_update_keeps [OF t0 assms(2) s0]
  have Lsc: "L ?sc = L (scene c)" by (simp add: scene_update_fields)
  from True have r: "running c" "\<not> paused c" by simp_all
  note u = update_running [OF r i(1,2), of lib dt]
  show ?thesis
  proof (cases "L ?sc \<le> s ?sc")
    case fin: True
    with u True i k Lsc lay show ?thesis
      by (simp add: Let_def state_inv_def constructed_layout_def) blast
  next
    case False
    with u True i k Lsc lay show ?thesis
      by (simp add: Let_def state_inv_def constructed_layout_def) blast
  qed
qed

lemma reachable_inv: "reachable lib c \<Longrightarrow> state_inv c"
proof (induction rule: reachable.induct)
  case reach_init
  show ?case by (rule state_inv_init)
next
  case (reach_events c evs mouse_pos go c1)
  then show ?case using handle_events_inv by blast
next
  case (reach_update c c1)
  from update_inv [OF reach_update.IH, of "1 / FPS" lib] reach_update.hyps(2)
  show ?case by (auto simp: FPS_def)
qed

subsection \<open>Runs of several ticks\<close>

lemma state_inv_bounds:
  assumes "state_inv c"
  shows "0 \<le> s (scene c)" and "s (scene c) \<le> L (scene c)" and "0 < L (scene c)"
    and "L (scene c) \<le> 5 / 2"
proof -
  from assms obtain i where i: "i < 5" "L (scene c) = PLANE_LENGTHS ! i"
    and s0: "s (scene c) = min ((5 / 10) * A * (t (scene c))\<^sup>2) (L (scene c))"
    by (auto simp: state_inv_def)
  from i show l: "0 < L (scene c)" by (simp add: PLANE_LENGTHS_pos)
  from i(1) have "i = 0 \<or> i = 1 \<or> i = 2 \<or> i = 3 \<or> i = 4" by arith
  with i(2) show "L (scene c) \<le> 5 / 2" by (auto simp: PLANE_LENGTHS_def)
  from s0 show "s (scene c) \<le> L (scene c)" by simp
  have "0 \<le> (5 / 10) * A * (t (scene c))\<^sup>2" by (simp add: A_value)
  with s0 l show "0 \<le> s (scene c)" by simp
qed

lemma update_step:
  assumes "state_inv c" and "0 \<le> dt" and "update lib dt c = Inr c1"
  shows "L (scene c1) = L (scene c)" and "s (scene c) \<le> s (scene c1)"
    and "L (scene c) \<le> s (scene c) \<Longrightarrow> scene c1 = scene c"
proof -
  from assms(1) have t0: "0 \<le> t (scene c)"
    and s0: "s (scene c) = min ((5 / 10) * A * (t (scene c))\<^sup>2) (L (scene c))"
    by (auto simp: state_inv_def)
  from update_inv [OF assms(1,2), of lib] assms(3)
  have sc: "scene c1 = (if running c \<and> \<not> paused c then snd (InclineScene_update dt (scene c)) else scene c)"
    by auto
  show "L (scene c1) = L (scene c)" by (simp add: sc scene_update_fields)
  show "s (scene c) \<le> s (scene c1)"
    using scene_update_keeps(3) [OF t0 assms(2) s0] by (simp add: sc)
  show "scene c1 = scene c" if "L (scene c) \<le> s (scene c)"
    using that by (simp add: sc InclineScene_update_done)
qed

lemma ticks_inv:
  assumes "state_inv c"
  shows "\<exists>c1. ticks lib n c = Inr c1 \<and> state_inv c1 \<and> L (scene c1) = L (scene c) \<and>
           s (scene c) \<le> s (scene c1)"
  using assms
proof (induction n arbitrary: c)
  case 0
  then show ?case by simp
next
  case (Suc n)
  have dt: "(0::real) \<le> 1 / FPS" by (simp add: FPS_def)
  from update_inv [OF Suc.prems dt, of lib] obtain c1 where
    c1: "update lib (1 / FPS) c = Inr c1" "state_inv c1" by blast
  note st = update_step [OF Suc.prems dt c1(1)]
  from Suc.IH [OF c1(2)] obtain c2 where
    c2: "ticks lib n c1 = Inr c2" "state_inv c2" "L (scene c2) = L (scene c1)"
      "s (scene c1) \<le> s (scene c2)" by blast
  from c1(1) c2 st(1,2) show ?case by auto
qed

lemma ticks_reachable:
  "reachable lib c \<Longrightarrow> ticks lib n c = Inr c1 \<Longrightarrow> reachable lib c1"
proof (induction n arbitrary: c)
  case 0
  then show ?case by simp
next
  case (Suc n)
  from Suc.prems(2) obtain c2 where c2: "update lib (1 / FPS) c = Inr c2" "ticks lib n c2 = Inr c1"
    by (auto split: sum.splits)
  from reach_update [OF Suc.prems(1) c2(1)] have "reachable lib c2" .
  from Suc.IH [OF this c2(2)] show ?case .
qed

text \<open>
  Claim C1. In every reachable state the displacement lies between \<open>0\<close> and the plane
  length of the scene. Any number of further ticks succeeds, keeps the plane length and
  does not decrease the displacement; from a state whose displacement equals the plane
  length, the displacement after these ticks is still exactly the plane length.
\<close>

theorem displacement_clamped:
  assumes "reachable lib c"
  shows "0 \<le> s (scene c) \<and> s (scene c) \<le> L (scene c) \<and>
         (\<forall>n. \<exists>c1. ticks lib n c = Inr c1 \<and> L (scene c1) = L (scene c) \<and>
                  s (scene c) \<le> s (scene c1) \<and> s (scene c1) \<le> L (scene c1) \<and>
                  (s (scene c) = L (scene c) \<longrightarrow> s (scene c1) = L (scene c1)))"
proof -
  from reachable_inv [OF assms] have inv: "state_inv c" .
  have "\<exists>c1. ticks lib n c = Inr c1 \<and> L (scene c1) = L (scene c) \<and>
                  s (scene c) \<le> s (scene c1) \<and> s (scene c1) \<le> L (scene c1) \<and>
                  (s (scene c) = L (scene c) \<longrightarrow> s (scene c1) = L (scene c1))" for n
  proof -
    from ticks_inv [OF inv, of lib n] obtain c1 where
      c1: "ticks lib n c = Inr c1" "state_inv c1" "L (scene c1) = L (scene c)"
        "s (scene c) \<le> s (scene c1)" by blast
    from state_inv_bounds(2) [OF c1(2)] have "s (scene c1) \<le> L (scene c1)" .
    with c1 show ?thesis by auto
  qed
  with state_inv_bounds(1,2) [OF inv] show ?thesis by blast
qed

lemma started_click:
  "handle_events [MOUSEBUTTONDOWN] (620, 350) mkSimulationController = Inr (True, started)"
proof -
  have h: "is_hovered (start_button mkSimulationController) (620, 350)"
    by (simp add: mkSimulationController_def mkButton_def is_hovered_def collidepoint_def
        mkRect_def r_right_def r_bottom_def LEFT_PANEL_WIDTH_def)
  show ?thesis
    by (simp add: handle_event_start_click [OF layout_init h] started_def)
qed

lemma started_reachable: "reachable lib started"
  by (rule reach_events [OF reach_init started_click])

lemma started_fields:
  "running started" "\<not> paused started" "t (scene started) = 0" "s (scene started) = 0"
  "L (scene started) = 1 / 2" "selected_height started = HEIGHTS ! 0"
  by (simp_all add: started_def press_start_def mkSimulationController_def mkInclineScene_def
      Let_def PLANE_LENGTHS_def)

theorem displacement_clamped_witness:
  "reachable sample_lib started \<and>
   0 \<le> s (scene started) \<and> s (scene started) \<le> L (scene started) \<and>
   (\<exists>c1. ticks sample_lib 28 started = Inr c1 \<and> L (scene c1) = 1 / 2 \<and>
         0 \<le> s (scene c1) \<and> s (scene c1) \<le> 1 / 2)"
proof -
  have r: "reachable sample_lib started" by (rule started_reachable)
  from displacement_clamped [OF r] obtain c1 where
    "ticks sample_lib 28 started = Inr c1" "L (scene c1) = L (scene started)"
    "s (scene started) \<le> s (scene c1)" "s (scene c1) \<le> L (scene c1)"
    by blast
  with r displacement_clamped [OF r] show ?thesis
    by (auto simp: started_fields)
qed

lemma ticks_idle: "\<not> running c \<or> paused c \<Longrightarrow> ticks lib n c = Inr c"
  by (induction n) (auto simp: update_def)

lemma ticks_running:
  assumes "state_inv c" and "running c" and "\<not> paused c"
  shows "\<exists>c1. ticks lib n c = Inr c1 \<and> state_inv c1 \<and> L (scene c1) = L (scene c) \<and>
           selected_height c1 = selected_height c \<and>
           t (scene c1) \<le> t (scene c) + real n / FPS \<and>
           ((running c1 \<and> \<not> paused c1 \<and> s (scene c1) < L (scene c1) \<and>
               t (scene c1) = t (scene c) + real n / FPS) \<or>
            (s (scene c1) = L (scene c1) \<and> (0 < n \<longrightarrow> \<not> running c1)))"
  using assms
proof (induction n arbitrary: c)
  case 0
  from state_inv_bounds(2) [OF "0.prems"(1)] have "s (scene c) \<le> L (scene c)" .
  with "0.prems" show ?case by (cases "s (scene c) < L (scene c)") auto
next
  case (Suc n)
  have dt: "(0::real) \<le> 1 / FPS" by (simp add: FPS_def)
  from update_inv [OF Suc.prems(1) dt, of lib] Suc.prems(2,3) obtain c1 where
    c1: "update lib (1 / FPS) c = Inr c1" "state_inv c1"
      "scene c1 = snd (InclineScene_update (1 / FPS) (scene c))"
      "selected_height c1 = selected_height c" "\<not> paused c1"
      "running c1 \<longleftrightarrow> s (scene c1) < L (scene c1)"
    by auto
  note st = update_step [OF Suc.prems(1) dt c1(1)]
  have tle: "t (scene c1) \<le> t (scene c) + 1 / FPS"
    by (simp add: c1(3) scene_update_fields FPS_def)
  show ?case
  proof (cases "running c1")
    case True
    with c1(6) have lt: "s (scene c1) < L (scene c1)" by simp
    with st(1,2) have "s (scene c) < L (scene c)" by simp
    then have t1: "t (scene c1) = t (scene c) + 1 / FPS"
      by (simp add: c1(3) scene_update_fields)
    from Suc.IH [OF c1(2) True c1(5)] obtain c2 where
      c2: "ticks lib n c1 = Inr c2" "state_inv c2" "L (scene c2) = L (scene c1)"
        "selected_height c2 = selected_height c1"
        "t (scene c2) \<le> t (scene c1) + real n / FPS"
        "(running c2 \<and> \<not> paused c2 \<and> s (scene c2) < L (scene c2) \<and>
            t (scene c2) = t (scene c1) + real n / FPS) \<or>
         (s (scene c2) = L (scene c2) \<and> (0 < n \<longrightarrow> \<not> running c2))"
      by blast
    have tk: "ticks lib (Suc n) c = Inr c2" using c1(1) c2(1) by simp
    have tle2: "t (scene c2) \<le> t (scene c) + real (Suc n) / FPS"
      using c2(5) tle by (simp add: add_divide_distrib)
    from c2(6) show ?thesis
    proof
      assume a: "running c2 \<and> \<not> paused c2 \<and> s (scene c2) < L (scene c2) \<and>
            t (scene c2) = t (scene c1) + real n / FPS"
      then have "t (scene c2) = t (scene c) + real (Suc n) / FPS"
        by (simp add: t1 add_divide_distrib)
      with a tk c2(2,3,4) c1(4) st(1) tle2 show ?thesis by auto
    next
      assume a: "s (scene c2) = L (scene c2) \<and> (0 < n \<longrightarrow> \<not> running c2)"
      have "0 < n"
      proof (rule ccontr)
        assume "\<not> 0 < n"
        then have "c2 = c1" using c2(1) by simp
        with a lt show False by simp
      qed
      with a tk c2(2,3,4) c1(4) st(1) tle2 show ?thesis by auto
    qed
  next
    case False
    then have "ticks lib n c1 = Inr c1" by (simp add: ticks_idle)
    then have tk: "ticks lib (Suc n) c = Inr c1" using c1(1) by simp
    from False c1(6) state_inv_bounds(2) [OF c1(2)] have "s (scene c1) = L (scene c1)"
      by simp
    moreover have "t (scene c1) \<le> t (scene c) + real (Suc n) / FPS"
    proof -
      have "(0::real) \<le> real n / FPS" by (simp add: FPS_def)
      with tle show ?thesis by (simp add: add_divide_distrib)
    qed
    ultimately show ?thesis using tk False c1(2,4) st(1) by auto
  qed
qed

lemma run_completes_within:
  assumes "state_inv c" and "running c" and "\<not> paused c"
  shows "\<exists>c1. ticks lib 61 c = Inr c1 \<and> state_inv c1 \<and> L (scene c1) = L (scene c) \<and>
           selected_height c1 = selected_height c \<and>
           s (scene c1) = L (scene c1) \<and> \<not> running c1"
proof -
  from ticks_running [OF assms, of lib 61] obtain c1 where
    c1: "ticks lib 61 c = Inr c1" "state_inv c1" "L (scene c1) = L (scene c)"
      "selected_height c1 = selected_height c"
      "(running c1 \<and> \<not> paused c1 \<and> s (scene c1) < L (scene c1) \<and>
          t (scene c1) = t (scene c) + real 61 / FPS) \<or>
       (s (scene c1) = L (scene c1) \<and> \<not> running c1)"
    by auto
  have "\<not> (s (scene c1) < L (scene c1) \<and> t (scene c1) = t (scene c) + real 61 / FPS)"
  proof
    assume a: "s (scene c1) < L (scene c1) \<and> t (scene c1) = t (scene c) + real 61 / FPS"
    from assms(1) have "0 \<le> t (scene c)" by (simp add: state_inv_def)
    with a have t1: "61 / 60 \<le> t (scene c1)" by (simp add: FPS_def)
    have "(5 / 10) * A * (61 / 60)\<^sup>2 \<le> (5 / 10) * A * (t (scene c1))\<^sup>2"
      by (rule kinematic_mono) (use t1 in simp_all)
    moreover have "(5 / 2 :: real) < (5 / 10) * A * (61 / 60)\<^sup>2"
      by (simp add: A_value power2_eq_square)
    ultimately have big: "L (scene c1) < (5 / 10) * A * (t (scene c1))\<^sup>2"
      using state_inv_bounds(4) [OF c1(2)] by simp
    from c1(2) have "s (scene c1) = min ((5 / 10) * A * (t (scene c1))\<^sup>2) (L (scene c1))"
      by (simp add: state_inv_def)
    with big have "s (scene c1) = L (scene c1)" by simp
    with a show False by simp
  qed
  with c1 show ?thesis by auto
qed

lemma ticks_before_completion:
  assumes "state_inv c" and "running c" and "\<not> paused c"
    and "(5 / 10) * A * (t (scene c) + real n / FPS)\<^sup>2 < L (scene c)"
  shows "\<exists>c1. ticks lib n c = Inr c1 \<and> state_inv c1 \<and> running c1 \<and> \<not> paused c1 \<and>
           t (scene c1) = t (scene c) + real n / FPS \<and>
           s (scene c1) < L (scene c1) \<and> L (scene c1) = L (scene c) \<and>
           selected_height c1 = selected_height c"
proof -
  from ticks_running [OF assms(1,2,3), of lib n] obtain c1 where
    c1: "ticks lib n c = Inr c1" "state_inv c1" "L (scene c1) = L (scene c)"
      "selected_height c1 = selected_height c"
      "t (scene c1) \<le> t (scene c) + real n / FPS"
      "(running c1 \<and> \<not> paused c1 \<and> s (scene c1) < L (scene c1) \<and>
          t (scene c1) = t (scene c) + real n / FPS) \<or>
       s (scene c1) = L (scene c1)"
    by auto
  from c1(2) have t1: "0 \<le> t (scene c1)"
    and s1: "s (scene c1) = min ((5 / 10) * A * (t (scene c1))\<^sup>2) (L (scene c1))"
    by (simp_all add: state_inv_def)
  have "(5 / 10) * A * (t (scene c1))\<^sup>2 \<le> (5 / 10) * A * (t (scene c) + real n / FPS)\<^sup>2"
    by (rule kinematic_mono [OF t1 c1(5)])
  with assms(4) s1 c1(3) have "s (scene c1) < L (scene c1)" by simp
  with c1 show ?thesis by auto
qed

text \<open>
  Claim C4. From any reachable state, select the \<open>i\<close>-th preset and press start: both
  clicks are handled, and the run begins in the reset state with the plane length of
  the preset. Ticking with \<open>dt = 1 / FPS\<close> then reaches the completion condition
  \<open>s \<ge> L\<close> after at most 61 ticks, none of which fails, and the controller has stopped
  running.
\<close>

theorem run_completes:
  assumes "reachable lib c" and "i < 5" and "is_hovered (buttons c ! i) p1"
    and "is_hovered (start_button c) p2"
  shows "\<exists>c1 c2. handle_events [MOUSEBUTTONDOWN] p1 c = Inr (True, c1) \<and>
           handle_events [MOUSEBUTTONDOWN] p2 c1 = Inr (True, c2) \<and>
           t (scene c2) = 0 \<and> s (scene c2) = 0 \<and> L (scene c2) = PLANE_LENGTHS ! i \<and>
           running c2 \<and> \<not> paused c2 \<and>
           (\<exists>n\<le>61. \<exists>c3. ticks lib n c2 = Inr c3 \<and> L (scene c3) = PLANE_LENGTHS ! i \<and>
               L (scene c3) \<le> s (scene c3) \<and> \<not> running c3)"
proof -
  from reachable_inv [OF assms(1)] have inv: "state_inv c" .
  then have lay: "constructed_layout c" by (simp add: state_inv_def)
  define c1 where "c1 =
     c\<lparr>selected_height := HEIGHTS ! i,
       scene := reset ((scene c)\<lparr>L := PLANE_LENGTHS ! i\<rparr>),
       running := False,
       paused := False,
       start_button := (start_button c)\<lparr>btn_text := ''Start''\<rparr>,
       graph := clear (graph c),
       fit_results := None,
       match_status := [],
       buttons := (buttons c)[i := (buttons c ! i)\<lparr>clicked := True\<rparr>]\<rparr>"
  have c1: "handle_events [MOUSEBUTTONDOWN] p1 c = Inr (True, c1)"
    "L (scene c1) = PLANE_LENGTHS ! i" "t (scene c1) = 0" "s (scene c1) = 0"
    "\<not> running c1" "\<not> paused c1"
    by (simp_all add: handle_event_height_click [OF lay assms(2,3)] c1_def reset_def)
  have "start_button c1 = (start_button c)\<lparr>btn_text := ''Start''\<rparr>"
    by (simp add: c1_def)
  with assms(4) have hov: "is_hovered (start_button c1) p2" by (simp add: is_hovered_def)
  from handle_events_inv [OF c1(1) inv] have inv1: "state_inv c1" .
  then have lay1: "constructed_layout c1" by (simp add: state_inv_def)
  let ?c2 = "press_start (c1\<lparr>start_button := (start_button c1)\<lparr>clicked := True\<rparr>\<rparr>)"
  have c2: "handle_events [MOUSEBUTTONDOWN] p2 c1 = Inr (True, ?c2)"
    by (simp add: handle_event_start_click [OF lay1 hov])
  from handle_events_inv [OF c2 inv1] have inv2: "state_inv ?c2" .
  have f2: "t (scene ?c2) = 0" "s (scene ?c2) = 0" "L (scene ?c2) = PLANE_LENGTHS ! i"
    "running ?c2" "\<not> paused ?c2"
    using c1 by (simp_all add: press_start_def)
  from run_completes_within [OF inv2 f2(4,5), of lib] obtain c3 where
    c3: "ticks lib 61 ?c2 = Inr c3" "L (scene c3) = L (scene ?c2)"
      "s (scene c3) = L (scene c3)" "\<not> running c3"
    by blast
  have "\<exists>n\<le>61. \<exists>c3. ticks lib n ?c2 = Inr c3 \<and> L (scene c3) = PLANE_LENGTHS ! i \<and>
               L (scene c3) \<le> s (scene c3) \<and> \<not> running c3"
    using c3 f2(3) by (intro exI [of _ 61]) auto
  with c1(1) c2 f2 show ?thesis by blast
qed


theorem run_completes_witness:
  "reachable sample_lib mkSimulationController \<and> (4::nat) < 5 \<and>
   is_hovered (buttons mkSimulationController ! 4) (620, 310) \<and>
   is_hovered (start_button mkSimulationController) (620, 350) \<and>
   (\<exists>c1 c2. handle_events [MOUSEBUTTONDOWN] (620, 310) mkSimulationController = Inr (True, c1) \<and>
      handle_events [MOUSEBUTTONDOWN] (620, 350) c1 = Inr (True, c2) \<and>
      t (scene c2) = 0 \<and> s (scene c2) = 0 \<and> L (scene c2) = 5 / 2 \<and> running c2 \<and>
      (\<exists>n. n \<le> 61 \<and> (\<exists>c3. ticks sample_lib n c2 = Inr c3 \<and> L (scene c3) = 5 / 2 \<and>
          5 / 2 \<le> s (scene c3))))"
proof -
  have h1: "reachable sample_lib mkSimulationController" by (rule reach_init)
  have h2: "(4::nat) < 5" by simp
  have h3: "is_hovered (buttons mkSimulationController ! 4) (620, 310)"
    by (simp add: init_buttons mkButton_def is_hovered_def collidepoint_def mkRect_def
        r_right_def r_bottom_def)
  have h4: "is_hovered (start_button mkSimulationController) (620, 350)"
    by (simp add: mkSimulationController_def mkButton_def is_hovered_def collidepoint_def
        mkRect_def r_right_def r_bottom_def LEFT_PANEL_WIDTH_def)
  have pl: "PLANE_LENGTHS ! 4 = 5 / 2" by (simp add: PLANE_LENGTHS_def)
  from run_completes [OF h1 h2 h3 h4] obtain c1 c2 n c3 where
    r: "handle_events [MOUSEBUTTONDOWN] (620, 310) mkSimulationController = Inr (True, c1)"
      "handle_events [MOUSEBUTTONDOWN] (620, 350) c1 = Inr (True, c2)"
      "t (scene c2) = 0" "s (scene c2) = 0" "L (scene c2) = PLANE_LENGTHS ! 4" "running c2"
      "n \<le> 61" "ticks sample_lib n c2 = Inr c3" "L (scene c3) = PLANE_LENGTHS ! 4"
      "L (scene c3) \<le> s (scene c3)"
    by blast
  from r(5,9,10) pl have "L (scene c2) = 5 / 2" "L (scene c3) = 5 / 2" "5 / 2 \<le> s (scene c3)"
    by simp_all
  with r h1 h2 h3 h4 show ?thesis by blast
qed

subsection \<open>The verdict of a completed run\<close>

text \<open>
  Claim C2. A tick of \<open>1 / FPS\<close> in a reachable, running, unpaused state succeeds. If
  the displacement has reached the plane length after it, the run is over: the elapsed
  time is positive, the measured average speed is the plane length divided by the
  elapsed time, the verdict is \<open>Success\<close> exactly when that speed differs from the
  experimental mean of the selected height by at most its standard deviation and
  \<open>Deviation\<close> exactly when it does not, the controller has stopped running, and the
  fits have been recomputed.
\<close>

theorem verdict_at_completion:
  assumes "reachable lib c" and "running c" and "\<not> paused c"
  shows "\<exists>c1. update lib (1 / FPS) c = Inr c1 \<and>
           (L (scene c1) \<le> s (scene c1) \<longrightarrow>
              (\<exists>i<5. index HEIGHTS (selected_height c1) = Inr i \<and>
                 0 < t (scene c1) \<and>
                 measured_speed (L (scene c1)) (t (scene c1)) = Inr (L (scene c1) / t (scene c1)) \<and>
                 (match_status c1 = ''Success'' \<longleftrightarrow>
                    \<bar>L (scene c1) / t (scene c1) - EXP_AVG_SPEEDS ! i\<bar> \<le> EXP_STD_DEVS ! i) \<and>
                 (match_status c1 = ''Deviation'' \<longleftrightarrow>
                    \<not> \<bar>L (scene c1) / t (scene c1) - EXP_AVG_SPEEDS ! i\<bar> \<le> EXP_STD_DEVS ! i) \<and>
                 \<not> running c1 \<and> fit_results c1 = Some (compute_fit lib)))"
proof -
  from reachable_inv [OF assms(1)] have inv: "state_inv c" .
  then obtain i where i: "i < 5" "selected_height c = HEIGHTS ! i"
    by (auto simp: state_inv_def)
  have dt: "(0::real) \<le> 1 / FPS" by (simp add: FPS_def)
  from update_inv [OF inv dt, of lib] obtain c1 where
    c1: "update lib (1 / FPS) c = Inr c1" "state_inv c1" by blast
  let ?sc = "snd (InclineScene_update (1 / FPS) (scene c))"
  note u = update_running [OF assms(2,3) i, of lib "1 / FPS"]
  have "\<exists>i<5. index HEIGHTS (selected_height c1) = Inr i \<and>
                 0 < t (scene c1) \<and>
                 measured_speed (L (scene c1)) (t (scene c1)) = Inr (L (scene c1) / t (scene c1)) \<and>
                 (match_status c1 = ''Success'' \<longleftrightarrow>
                    \<bar>L (scene c1) / t (scene c1) - EXP_AVG_SPEEDS ! i\<bar> \<le> EXP_STD_DEVS ! i) \<and>
                 (match_status c1 = ''Deviation'' \<longleftrightarrow>
                    \<not> \<bar>L (scene c1) / t (scene c1) - EXP_AVG_SPEEDS ! i\<bar> \<le> EXP_STD_DEVS ! i) \<and>
                 \<not> running c1 \<and> fit_results c1 = Some (compute_fit lib)"
    if fin: "L (scene c1) \<le> s (scene c1)"
  proof -
    from c1(1) u have sc1: "scene c1 = ?sc"
      by (auto simp: Let_def split: if_splits)
    with fin have fin': "L ?sc \<le> s ?sc" by simp
    from c1(2) have t0: "0 \<le> t (scene c1)"
      and s1: "s (scene c1) = min ((5 / 10) * A * (t (scene c1))\<^sup>2) (L (scene c1))"
      by (simp_all add: state_inv_def)
    have "t (scene c1) \<noteq> 0"
    proof
      assume "t (scene c1) = 0"
      with s1 state_inv_bounds(3) [OF c1(2)] have "s (scene c1) = 0" by simp
      with fin state_inv_bounds(3) [OF c1(2)] show False by simp
    qed
    with t0 have tpos: "0 < t (scene c1)" by simp
    from c1(1) u fin' have c1_eq: "c1 =
       c\<lparr>scene := ?sc, graph := add_point (s ?sc) (A * t ?sc) (graph c),
         running := False,
         start_button := (start_button c)\<lparr>btn_text := ''Start''\<rparr>,
         match_status := verdict (if 0 < t ?sc then L ?sc / t ?sc else 0)
                           (EXP_AVG_SPEEDS ! i) (EXP_STD_DEVS ! i),
         fit_results := Some (compute_fit lib)\<rparr>"
      by (simp add: Let_def)
    have sel: "selected_height c1 = HEIGHTS ! i" by (subst c1_eq) (simp add: i)
    have ms: "match_status c1 =
        verdict (L (scene c1) / t (scene c1)) (EXP_AVG_SPEEDS ! i) (EXP_STD_DEVS ! i)"
      using tpos sc1 by (subst c1_eq) simp
    have nr: "\<not> running c1" "fit_results c1 = Some (compute_fit lib)"
      by (subst c1_eq, simp)+
    have "index HEIGHTS (selected_height c1) = Inr i"
      by (simp add: sel index_HEIGHTS_nth [OF i(1)])
    moreover have "measured_speed (L (scene c1)) (t (scene c1)) = Inr (L (scene c1) / t (scene c1))"
      using tpos by (simp add: measured_speed_total)
    ultimately show ?thesis
      using i(1) tpos nr by (intro exI [of _ i]) (simp add: ms verdict_def)
  qed
  with c1(1) show ?thesis by blast
qed


theorem verdict_at_completion_witness:
  "\<exists>c. ticks sample_lib 27 started = Inr c \<and> reachable sample_lib c \<and> running c \<and> \<not> paused c \<and>
       (\<exists>c1. update sample_lib (1 / FPS) c = Inr c1 \<and> L (scene c1) \<le> s (scene c1) \<and>
          L (scene c1) = 1 / 2 \<and> t (scene c1) = 7 / 15 \<and>
          measured_speed (L (scene c1)) (t (scene c1)) = Inr (15 / 14) \<and>
          match_status c1 = ''Deviation'' \<and> \<not> running c1)"
proof -
  have inv0: "state_inv started" by (rule reachable_inv [OF started_reachable])
  have lt: "(5 / 10) * A * (t (scene started) + real 27 / FPS)\<^sup>2 < L (scene started)"
    by (simp add: started_fields A_value FPS_def power2_eq_square)
  from ticks_before_completion [OF inv0 started_fields(1,2) lt, of sample_lib] obtain c where
    c: "ticks sample_lib 27 started = Inr c" "state_inv c" "running c" "\<not> paused c"
      "t (scene c) = t (scene started) + real 27 / FPS" "s (scene c) < L (scene c)"
      "L (scene c) = L (scene started)" "selected_height c = selected_height started"
    by blast
  have rc: "reachable sample_lib c"
    by (rule ticks_reachable [OF started_reachable c(1)])
  have dt: "(0::real) \<le> 1 / FPS" by (simp add: FPS_def)
  from verdict_at_completion [OF rc c(3,4)] obtain c1 where
    c1: "update sample_lib (1 / FPS) c = Inr c1"
    and fin: "L (scene c1) \<le> s (scene c1) \<longrightarrow>
              (\<exists>i<5. index HEIGHTS (selected_height c1) = Inr i \<and>
                 0 < t (scene c1) \<and>
                 measured_speed (L (scene c1)) (t (scene c1)) = Inr (L (scene c1) / t (scene c1)) \<and>
                 (match_status c1 = ''Success'' \<longleftrightarrow>
                    \<bar>L (scene c1) / t (scene c1) - EXP_AVG_SPEEDS ! i\<bar> \<le> EXP_STD_DEVS ! i) \<and>
                 (match_status c1 = ''Deviation'' \<longleftrightarrow>
                    \<not> \<bar>L (scene c1) / t (scene c1) - EXP_AVG_SPEEDS ! i\<bar> \<le> EXP_STD_DEVS ! i) \<and>
                 \<not> running c1 \<and> fit_results c1 = Some (compute_fit sample_lib))"
    by blast
  from update_inv [OF c(2) dt, of sample_lib] c1 c(3,4)
  have sc1: "scene c1 = snd (InclineScene_update (1 / FPS) (scene c))"
    and sel1: "selected_height c1 = selected_height c"
    by auto
  have L1: "L (scene c1) = 1 / 2"
    by (simp add: sc1 scene_update_fields c(7) started_fields)
  have tsum: "t (scene c) + 1 / FPS = 7 / 15"
    using c(5) by (simp add: started_fields FPS_def)
  have t1: "t (scene c1) = 7 / 15"
    using c(6) by (simp only: sc1 scene_update_fields if_True tsum)
  have "s (scene c1) = min ((5 / 10) * A * (7 / 15)\<^sup>2) (1 / 2)"
    using c(6) by (simp only: sc1 scene_update_fields if_True tsum c(7) started_fields)
  then have s1: "s (scene c1) = 1 / 2"
    by (simp add: A_value power2_eq_square)
  from fin L1 s1 obtain i where i: "i < 5" "index HEIGHTS (selected_height c1) = Inr i"
    "measured_speed (L (scene c1)) (t (scene c1)) = Inr (L (scene c1) / t (scene c1))"
    "match_status c1 = ''Deviation'' \<longleftrightarrow>
       \<not> \<bar>L (scene c1) / t (scene c1) - EXP_AVG_SPEEDS ! i\<bar> \<le> EXP_STD_DEVS ! i"
    "\<not> running c1"
    by auto
  have "index HEIGHTS (selected_height c1) = Inr 0"
    by (simp add: sel1 c(8) started_fields index_HEIGHTS_nth)
  with i(2) have i0: "i = 0" by simp
  from i(4) have dev: "match_status c1 = ''Deviation''"
    by (simp add: i0 L1 t1 EXP_AVG_SPEEDS_def EXP_STD_DEVS_def)
  from i(3) have ms: "measured_speed (L (scene c1)) (t (scene c1)) = Inr (15 / 14)"
    by (simp add: L1 t1)
  from c(1) rc c(3,4) c1 L1 s1 t1 ms dev i(5) show ?thesis
    by (intro exI [of _ c] conjI exI [of _ c1]) simp_all
qed

subsection \<open>The graph overlay\<close>

lemma max_s_value: "last PLANE_LENGTHS = 5 / 2" "Max (set PLANE_LENGTHS) = 5 / 2"
  by (simp_all add: PLANE_LENGTHS_def)

lemma linspace_100: "linspace 0 stop 100 = map (\<lambda>k. real k * (stop / 99)) [0..<100]"
proof -
  have "[0..<100] = [0..<99] @ [99]" by (simp add: upt_rec)
  then show ?thesis by (simp add: linspace_def)
qed

lemma polyline_map:
  "polyline col r max_s max_v (map x [0..<Suc n]) (map f (map x [0..<Suc n])) =
     map (\<lambda>k. DrawLine col (plot_x r max_s (x k), plot_y r max_v (f (x k)))
                 (plot_x r max_s (x (k + 1)), plot_y r max_v (f (x (k + 1)))) 1) [0..<n]"
  unfolding polyline_def
  by (rule map_cong) (simp_all del: upt_Suc)

lemma scatter_filter:
  "scatter r max_s max_v pts =
     map (\<lambda>pt. DrawCircle RED (py_int (plot_x r max_s (fst pt)), py_int (plot_y r max_v (snd pt))) 2)
         (filter (\<lambda>pt. fst pt \<le> max_s) pts)"
  by (induction pts) (auto simp: not_less)

lemma index_from_in_set:
  "x \<in> set xs \<Longrightarrow> \<exists>j. index_from k xs x = Inr j"
  by (induction xs arbitrary: k) auto

lemma index_in_set:
  assumes "x \<in> set xs"
  shows "\<exists>j<length xs. index xs x = Inr j \<and> xs ! j = x"
proof -
  from index_from_in_set [OF assms, of 0] obtain j where "index xs x = Inr j"
    by (auto simp: index_def)
  with index_Inr [OF this] show ?thesis by blast
qed


text \<open>
  Claim C8. The sampled abscissae are the 100 values \<open>k * (max_s / 99)\<close>, from \<open>0\<close>
  to \<open>max_s\<close>, the largest plane length. When the selected height is a preset, the
  primitives drawn are the frame, one red circle for each trace sample with
  \<open>s \<le> max_s\<close> and none for the others, the 99 green segments joining the points
  \<open>(x, slope * (x / 2) + intercept)\<close> at consecutive abscissae, the 99 yellow segments
  joining the points \<open>(x, A_fit * (x / 2) ** p)\<close>, and the marker of the selected preset.
  For any other selected height only the frame and the circles are drawn.
\<close>

theorem overlay_samples:
  "(let r = GraphPlot.rect g;
        max_s = Max (set PLANE_LENGTHS);
        (slope, intercept, r_value) = linregress lib HEIGHTS EXP_AVG_SPEEDS;
        (A_fit, p) = curve_fit lib (power_law lib) HEIGHTS EXP_AVG_SPEEDS;
        x = (\<lambda>k. real k * (max_s / 99));
        v_linear = (\<lambda>x. slope * (x / 2) + intercept);
        v_power = (\<lambda>x. A_fit * float_pow lib (x / 2) p);
        segment = (\<lambda>col f k. DrawLine col (plot_x r max_s (x k), plot_y r 4 (f (x k)))
                                (plot_x r max_s (x (k + 1)), plot_y r 4 (f (x (k + 1)))) 1);
        dots = map (\<lambda>pt. DrawCircle RED (py_int (plot_x r max_s (fst pt)),
                                         py_int (plot_y r 4 (snd pt))) 2)
                   (filter (\<lambda>pt. fst pt \<le> max_s) (points g))
    in linspace 0 max_s 100 = map x [0..<100] \<and> x 0 = 0 \<and> x 99 = max_s \<and>
       (sel_height \<in> set HEIGHTS \<longrightarrow>
          (\<exists>idx<5. HEIGHTS ! idx = sel_height \<and>
             draw lib g sel_height =
               Inr (draw_frame r @ dots
                    @ map (segment GREEN v_linear) [0..<99]
                    @ map (segment YELLOW v_power) [0..<99]
                    @ [DrawCircle BLACK (py_int (plot_x r max_s (PLANE_LENGTHS ! idx)),
                                         py_int (plot_y r 4 (EXP_AVG_SPEEDS ! idx))) 5]))) \<and>
       (sel_height \<notin> set HEIGHTS \<longrightarrow> draw lib g sel_height = Inr (draw_frame r @ dots)))"
proof -
  obtain slope intercept r_value where lr:
    "linregress lib HEIGHTS EXP_AVG_SPEEDS = (slope, intercept, r_value)"
    by (cases "linregress lib HEIGHTS EXP_AVG_SPEEDS") auto
  obtain A_fit p where cf: "curve_fit lib (power_law lib) HEIGHTS EXP_AVG_SPEEDS = (A_fit, p)"
    by (cases "curve_fit lib (power_law lib) HEIGHTS EXP_AVG_SPEEDS") auto
  let ?r = "GraphPlot.rect g"
  let ?x = "\<lambda>k. real k * ((5 / 2 :: real) / 99)"
  let ?dots = "map (\<lambda>pt. DrawCircle RED (py_int (plot_x ?r (5 / 2) (fst pt)),
                                         py_int (plot_y ?r 4 (snd pt))) 2)
                   (filter (\<lambda>pt. fst pt \<le> 5 / 2) (points g))"
  have up: "[0..<100] = [0..<Suc 99]" by simp
  have green: "polyline GREEN ?r (5 / 2) 4 (map ?x [0..<100])
                 (map (\<lambda>x. slope * (x / 2) + intercept) (map ?x [0..<100])) =
               map (\<lambda>k. DrawLine GREEN
                      (plot_x ?r (5 / 2) (?x k), plot_y ?r 4 (slope * (?x k / 2) + intercept))
                      (plot_x ?r (5 / 2) (?x (k + 1)), plot_y ?r 4 (slope * (?x (k + 1) / 2) + intercept)) 1)
                   [0..<99]"
    unfolding up by (rule polyline_map)
  have yellow: "polyline YELLOW ?r (5 / 2) 4 (map ?x [0..<100])
                 (map (\<lambda>x. power_law lib (x / 2) A_fit p) (map ?x [0..<100])) =
               map (\<lambda>k. DrawLine YELLOW
                      (plot_x ?r (5 / 2) (?x k), plot_y ?r 4 (A_fit * float_pow lib (?x k / 2) p))
                      (plot_x ?r (5 / 2) (?x (k + 1)), plot_y ?r 4 (A_fit * float_pow lib (?x (k + 1) / 2) p)) 1)
                   [0..<99]"
    unfolding up power_law_def by (rule polyline_map)
  have hit: "\<exists>idx<5. HEIGHTS ! idx = sel_height \<and>
             draw lib g sel_height =
               Inr (draw_frame ?r @ ?dots
                    @ map (\<lambda>k. DrawLine GREEN
                      (plot_x ?r (5 / 2) (?x k), plot_y ?r 4 (slope * (?x k / 2) + intercept))
                      (plot_x ?r (5 / 2) (?x (k + 1)), plot_y ?r 4 (slope * (?x (k + 1) / 2) + intercept)) 1)
                   [0..<99]
                    @ map (\<lambda>k. DrawLine YELLOW
                      (plot_x ?r (5 / 2) (?x k), plot_y ?r 4 (A_fit * float_pow lib (?x k / 2) p))
                      (plot_x ?r (5 / 2) (?x (k + 1)), plot_y ?r 4 (A_fit * float_pow lib (?x (k + 1) / 2) p)) 1)
                   [0..<99]
                    @ [DrawCircle BLACK (py_int (plot_x ?r (5 / 2) (PLANE_LENGTHS ! idx)),
                                         py_int (plot_y ?r 4 (EXP_AVG_SPEEDS ! idx))) 5])"
    if mem: "sel_height \<in> set HEIGHTS"
  proof -
    from index_in_set [OF mem] obtain idx where
      idx: "idx < 5" "index HEIGHTS sel_height = Inr idx" "HEIGHTS ! idx = sel_height"
      by (auto simp: HEIGHTS_def)
    have gi: "getitem PLANE_LENGTHS idx = Inr (PLANE_LENGTHS ! idx)"
      "getitem EXP_AVG_SPEEDS idx = Inr (EXP_AVG_SPEEDS ! idx)"
      using idx(1) by (simp_all add: getitem_def PLANE_LENGTHS_def EXP_AVG_SPEEDS_def)
    have "draw lib g sel_height =
            Inr (draw_frame ?r @ scatter ?r (5 / 2) 4 (points g)
                 @ polyline GREEN ?r (5 / 2) 4 (map ?x [0..<100])
                     (map (\<lambda>x. slope * (x / 2) + intercept) (map ?x [0..<100]))
                 @ polyline YELLOW ?r (5 / 2) 4 (map ?x [0..<100])
                     (map (\<lambda>x. power_law lib (x / 2) A_fit p) (map ?x [0..<100]))
                 @ [DrawCircle BLACK (py_int (plot_x ?r (5 / 2) (PLANE_LENGTHS ! idx)),
                                      py_int (plot_y ?r 4 (EXP_AVG_SPEEDS ! idx))) 5])"
      using mem
      by (simp add: draw_def Let_def max_s_value idx(2) gi lr cf linspace_100 del: upt_Suc)
    then show ?thesis
      using idx(1,3) by (simp only: green yellow scatter_filter) blast
  qed
  have miss: "draw lib g sel_height = Inr (draw_frame ?r @ ?dots)"
    if "sel_height \<notin> set HEIGHTS"
    using that by (simp add: draw_def Let_def max_s_value scatter_filter)
  have x99: "?x 99 = 5 / 2" "?x 0 = 0" by simp_all
  show ?thesis
    unfolding Let_def max_s_value lr cf prod.case
    using hit miss x99 linspace_100 [of "5 / 2"] by blast
qed


lemma sample_graph_fields:
  "GraphPlot.rect sample_graph = mkRect 620 400 384 200" "points sample_graph = [(1, 2), (3, 1)]"
  by (simp_all add: sample_graph_def mkSimulationController_def mkGraphPlot_def
      LEFT_PANEL_WIDTH_def RIGHT_PANEL_WIDTH_def WINDOW_WIDTH_def)

theorem overlay_samples_witness:
  "1 / 2 \<in> set HEIGHTS \<and>
   (\<exists>cmds. draw sample_lib sample_graph (1 / 2) = Inr cmds \<and> length cmds = 206 \<and>
      cmds ! 6 = DrawCircle RED (777, 500) 2 \<and>
      cmds ! 7 = DrawLine GREEN (640, 560) (640 + 344 / 99, 560 - 100 / 99) 1) \<and>
   draw sample_lib sample_graph 3 =
     Inr (draw_frame (GraphPlot.rect sample_graph) @ [DrawCircle RED (777, 500) 2])"
proof -
  have mem: "1 / 2 \<in> set HEIGHTS" by (simp add: HEIGHTS_def)
  have nmem: "3 \<notin> set HEIGHTS" by (simp add: HEIGHTS_def)
  have lr: "linregress sample_lib HEIGHTS EXP_AVG_SPEEDS = (2, 1 / 2, 1)"
    and cf: "curve_fit sample_lib (power_law sample_lib) HEIGHTS EXP_AVG_SPEEDS = (2, 1)"
    by (simp_all add: sample_lib_def)
  have len: "length (draw_frame r) = 6" for r by (simp add: draw_frame_def Let_def)
  have px: "py_int (plot_x (mkRect 620 400 384 200) (5 / 2) 1) = 777"
    and py: "py_int (plot_y (mkRect 620 400 384 200) 4 2) = 500"
    by (simp_all add: py_int_def plot_x_def plot_y_def mkRect_def r_bottom_def)
  note ov = overlay_samples [of sample_graph sample_lib "1 / 2"]
  from ov mem have a: "\<exists>cmds. draw sample_lib sample_graph (1 / 2) = Inr cmds \<and> length cmds = 206 \<and>
      cmds ! 6 = DrawCircle RED (777, 500) 2 \<and>
      cmds ! 7 = DrawLine GREEN (640, 560) (640 + 344 / 99, 560 - 100 / 99) 1"
    unfolding Let_def max_s_value lr cf prod.case sample_graph_fields
    by (auto simp: len nth_append py_int_def plot_x_def plot_y_def mkRect_def r_bottom_def
        simp del: upt_Suc)
  note ov3 = overlay_samples [of sample_graph sample_lib 3]
  from ov3 nmem have b: "draw sample_lib sample_graph 3 =
     Inr (draw_frame (GraphPlot.rect sample_graph) @ [DrawCircle RED (777, 500) 2])"
    unfolding Let_def max_s_value lr cf prod.case sample_graph_fields
    by (auto simp: px py)
  from mem a b show ?thesis by blast
qed

subsection \<open>Reachable states run without error\<close>

lemma reachable_layout: "reachable lib c \<Longrightarrow> constructed_layout c"
  using reachable_inv by (simp add: state_inv_def)

lemma label_height_total:
  assumes "txt \<in> set height_labels"
  shows "\<exists>i<5. label_height txt = Inr (HEIGHTS ! i)"
proof -
  have "length height_labels = 5" by (simp add: height_labels_def)
  with assms obtain i where "i < 5" "height_labels ! i = txt"
    by (auto simp: in_set_conv_nth)
  with label_height_nth [of i] show ?thesis by auto
qed

lemma select_height_total:
  assumes "btn_text b \<in> set height_labels"
  shows "\<exists>c1. select_height b c = Inr c1"
proof -
  from label_height_total [OF assms] obtain i where
    i: "i < 5" "label_height (btn_text b) = Inr (HEIGHTS ! i)" by blast
  then show ?thesis by (simp add: select_height_def set_height_nth)
qed

lemma for_buttons_total:
  assumes "\<forall>b\<in>set bs. btn_text b \<in> set height_labels"
  shows "\<exists>bs1 c1. for_buttons bs ev mp c = Inr (bs1, c1)"
  using assms
proof (induction bs arbitrary: c)
  case Nil
  show ?case by simp
next
  case (Cons b bs)
  obtain hit b1 where hb: "is_clicked b ev mp = (hit, b1)" by (cases "is_clicked b ev mp")
  from is_clicked_same [OF hb] Cons.prems have "btn_text b1 \<in> set height_labels" by simp
  from select_height_total [OF this, of c] have "\<exists>c1. (if hit then select_height b1 c else Inr c) = Inr c1"
    by (cases hit) simp_all
  then obtain c1 where
    c1: "(if hit then select_height b1 c else Inr c) = Inr c1" ..
  from Cons.IH [of c1] Cons.prems obtain bs1 c2 where
    "for_buttons bs ev mp c1 = Inr (bs1, c2)" by auto
  with hb c1 show ?case by simp
qed

lemma handle_event_total:
  assumes "constructed_layout c"
  shows "\<exists>go c1. handle_event ev mp c = Inr (go, c1)"
proof -
  from assms have "map btn_text (buttons c) = height_labels"
    by (simp add: constructed_layout_def)
  then have "set height_labels = btn_text ` set (buttons c)"
    by (metis set_map)
  then have "\<forall>b\<in>set (buttons c). btn_text b \<in> set height_labels" by simp
  from for_buttons_total [OF this, of ev mp c] obtain bs1 c1 where
    "for_buttons (buttons c) ev mp c = Inr (bs1, c1)" by blast
  then show ?thesis
    by (auto simp: handle_event_def Let_def split: prod.splits)
qed

lemma handle_events_total:
  assumes "state_inv c"
  shows "\<exists>go c1. handle_events evs mp c = Inr (go, c1)"
  using assms
proof (induction evs arbitrary: c)
  case Nil
  have "handle_events [] mp c = Inr (True, c)" by simp
  then show ?case by blast
next
  case (Cons ev evs)
  from Cons.prems have "constructed_layout c" by (simp add: state_inv_def)
  from handle_event_total [OF this, of ev mp] obtain go c1 where
    h: "handle_event ev mp c = Inr (go, c1)" by blast
  from handle_event_inv [OF h Cons.prems] have "state_inv c1" .
  from Cons.IH [OF this] obtain go2 c2 where
    r: "handle_events evs mp c1 = Inr (go2, c2)" by blast
  show ?case
  proof (cases go)
    case True
    with h r have "handle_events (ev # evs) mp c = Inr (go2, c2)" by simp
    then show ?thesis by blast
  next
    case False
    with h have "handle_events (ev # evs) mp c = Inr (False, c1)" by simp
    then show ?thesis by blast
  qed
qed

lemma frame_step_reachable:
  assumes "reachable lib c"
  shows "\<exists>go c1. frame_step lib evs mp c = Inr (go, c1) \<and> reachable lib c1"
proof -
  from handle_events_total [OF reachable_inv [OF assms], of evs mp] obtain go c1 where
    h: "handle_events evs mp c = Inr (go, c1)" by blast
  from reach_events [OF assms h] have r1: "reachable lib c1" .
  have dt: "(0::real) \<le> 1 / FPS" by (simp add: FPS_def)
  from update_inv [OF reachable_inv [OF r1] dt, of lib] obtain c2 where
    u: "update lib (1 / FPS) c1 = Inr c2" by blast
  from reach_update [OF r1 u] h u show ?thesis by (simp add: frame_step_def)
qed

end
